theory Spec2Isabelle
  imports Main "HOL-Library.Word"
begin

section \<open>The environment of the container\<close>

text \<open>
  \<^verbatim>\<open>vector.h\<close> defines two class templates, \<^verbatim>\<open>RawMemory<T>\<close> and \<^verbatim>\<open>Vector<T>\<close>.
  Everything they do is done by calling the element type \<^verbatim>\<open>T\<close> (its constructors,
  assignments and destructor) and the global allocation functions. The model takes
  these collaborators as a parameter and records every call the container makes.

  Sizes and addresses are natural numbers. Addresses count in units of
  \<^verbatim>\<open>sizeof(T)\<close>; address \<open>0\<close> is \<^verbatim>\<open>nullptr\<close>. A \<^verbatim>\<open>size_t\<close> has 64 bits. The source
  computes three things in \<^verbatim>\<open>size_t\<close>: \<^verbatim>\<open>size_ + 1\<close> and \<^verbatim>\<open>size_ * 2\<close>, on the size of a
  full buffer, where they do not wrap (a buffer of \<open>2^63\<close> objects does not fit in the
  address space), and the byte count \<^verbatim>\<open>n * sizeof(T)\<close> of \<^verbatim>\<open>Allocate\<close>, on a number \<open>n\<close> the
  caller may choose freely: that product is taken modulo \<open>2^64\<close>.
\<close>

type_synonym addr = nat

definition nullptr :: addr where
  "nullptr = 0"

text \<open>Multiplication in \<^verbatim>\<open>size_t\<close>, an unsigned integer of 64 bits.\<close>

definition size_t_mul :: "nat \<Rightarrow> nat \<Rightarrow> nat" where
  "size_t_mul a b = unat (word_of_nat a * word_of_nat b :: 64 word)"

text \<open>A C++ exception in flight: \<^verbatim>\<open>std::bad_alloc\<close> or whatever the element type throws.\<close>

datatype exn = BadAlloc | ElementExn nat

text \<open>
  How a call ends: it returns, it lets an exception propagate, or it has no defined
  continuation (a failed \<^verbatim>\<open>assert\<close>, an access outside the allocated storage or to an
  uninitialized slot, \<^verbatim>\<open>std::terminate\<close> after a \<^verbatim>\<open>noexcept\<close> function threw).
\<close>

datatype 'r outcome = Returned 'r | Raised exn | Undefined

text \<open>The calls the container makes on its collaborators, each with its result.\<close>

datatype 'a event =
    OperatorNew nat "exn + addr"
  | OperatorDelete addr
  | Construct "'a outcome"
  | ValueConstruct "exn + 'a"
  | CopyConstruct 'a "exn + 'a"
  | MoveConstruct 'a "exn + 'a \<times> 'a"
  | CopyAssign 'a 'a "exn + 'a"
  | MoveAssign 'a 'a "exn + 'a \<times> 'a"
  | Destroy 'a

text \<open>
  The state outside the container: \<open>env\<close> is whatever the element type and the
  allocator keep (a countdown to the next failure, a count of live objects, ...),
  \<open>trace\<close> the calls made so far.
\<close>

record ('a, 'w) world =
  env :: 'w
  trace :: "'a event list"

text \<open>
  The element type \<^verbatim>\<open>T\<close> and the allocation functions. An operation takes the
  environment and returns the new one together with \<open>Inl\<close> the exception it threw or
  \<open>Inr\<close> its result. A move returns the object it built (or assigned to) and the state it
  left its source in. The two flags are \<^verbatim>\<open>std::is_nothrow_move_constructible_v<T>\<close> and
  \<^verbatim>\<open>std::is_copy_constructible_v<T>\<close>, and \<open>size_of\<close> is \<^verbatim>\<open>sizeof(T)\<close>. Destructors and
  \<^verbatim>\<open>operator delete\<close> do not throw. An operation that throws leaves its operands as
  they were. \<^verbatim>\<open>operator new\<close> takes a number of bytes.
\<close>

record ('a, 'w) element =
  size_of :: nat
  is_nothrow_move_constructible :: bool
  is_copy_constructible :: bool
  value_construct :: "'w \<Rightarrow> (exn + 'a) \<times> 'w"
  copy_construct :: "'a \<Rightarrow> 'w \<Rightarrow> (exn + 'a) \<times> 'w"
  move_construct :: "'a \<Rightarrow> 'w \<Rightarrow> (exn + 'a \<times> 'a) \<times> 'w"
  copy_assign :: "'a \<Rightarrow> 'a \<Rightarrow> 'w \<Rightarrow> (exn + 'a) \<times> 'w"
  move_assign :: "'a \<Rightarrow> 'a \<Rightarrow> 'w \<Rightarrow> (exn + 'a \<times> 'a) \<times> 'w"
  destroy :: "'a \<Rightarrow> 'w \<Rightarrow> 'w"
  operator_new :: "nat \<Rightarrow> 'w \<Rightarrow> (exn + addr) \<times> 'w"
  operator_delete :: "addr \<Rightarrow> 'w \<Rightarrow> 'w"

definition of_sum :: "exn + 'r \<Rightarrow> 'r outcome" where
  "of_sum r = (case r of Inl x \<Rightarrow> Raised x | Inr y \<Rightarrow> Returned y)"

definition call_operator_new ::
  "('a, 'w) element \<Rightarrow> nat \<Rightarrow> ('a, 'w) world \<Rightarrow> addr outcome \<times> ('a, 'w) world" where
  "call_operator_new T n w =
     (case operator_new T n (env w) of
        (r, e) \<Rightarrow> (of_sum r, \<lparr>env = e, trace = trace w @ [OperatorNew n r]\<rparr>))"

definition call_operator_delete ::
  "('a, 'w) element \<Rightarrow> addr \<Rightarrow> ('a, 'w) world \<Rightarrow> ('a, 'w) world" where
  "call_operator_delete T p w =
     \<lparr>env = operator_delete T p (env w), trace = trace w @ [OperatorDelete p]\<rparr>"

text \<open>
  \<^verbatim>\<open>T(std::forward<Args>(args)...)\<close>: the argument pack, with the constructor it
  selects, is a computation \<open>args\<close> on the environment.
\<close>

definition call_construct ::
  "('w \<Rightarrow> 'a outcome \<times> 'w) \<Rightarrow> ('a, 'w) world \<Rightarrow> 'a outcome \<times> ('a, 'w) world" where
  "call_construct args w =
     (case args (env w) of
        (r, e) \<Rightarrow> (r, \<lparr>env = e, trace = trace w @ [Construct r]\<rparr>))"

definition call_value_construct ::
  "('a, 'w) element \<Rightarrow> ('a, 'w) world \<Rightarrow> 'a outcome \<times> ('a, 'w) world" where
  "call_value_construct T w =
     (case value_construct T (env w) of
        (r, e) \<Rightarrow> (of_sum r, \<lparr>env = e, trace = trace w @ [ValueConstruct r]\<rparr>))"

definition call_copy_construct ::
  "('a, 'w) element \<Rightarrow> 'a \<Rightarrow> ('a, 'w) world \<Rightarrow> 'a outcome \<times> ('a, 'w) world" where
  "call_copy_construct T x w =
     (case copy_construct T x (env w) of
        (r, e) \<Rightarrow> (of_sum r, \<lparr>env = e, trace = trace w @ [CopyConstruct x r]\<rparr>))"

text \<open>
  A move constructor that is \<^verbatim>\<open>noexcept\<close> and throws all the same ends the program
  in \<^verbatim>\<open>std::terminate\<close>.
\<close>

definition call_move_construct ::
  "('a, 'w) element \<Rightarrow> 'a \<Rightarrow> ('a, 'w) world \<Rightarrow> ('a \<times> 'a) outcome \<times> ('a, 'w) world" where
  "call_move_construct T x w =
     (case move_construct T x (env w) of
        (r, e) \<Rightarrow>
          (case r of
             Inl ex \<Rightarrow> if is_nothrow_move_constructible T then Undefined else Raised ex
           | Inr p \<Rightarrow> Returned p,
           \<lparr>env = e, trace = trace w @ [MoveConstruct x r]\<rparr>))"

definition call_copy_assign ::
  "('a, 'w) element \<Rightarrow> 'a \<Rightarrow> 'a \<Rightarrow> ('a, 'w) world \<Rightarrow> 'a outcome \<times> ('a, 'w) world" where
  "call_copy_assign T dst src w =
     (case copy_assign T dst src (env w) of
        (r, e) \<Rightarrow> (of_sum r, \<lparr>env = e, trace = trace w @ [CopyAssign dst src r]\<rparr>))"

definition call_move_assign ::
  "('a, 'w) element \<Rightarrow> 'a \<Rightarrow> 'a \<Rightarrow> ('a, 'w) world \<Rightarrow> ('a \<times> 'a) outcome \<times> ('a, 'w) world" where
  "call_move_assign T dst src w =
     (case move_assign T dst src (env w) of
        (r, e) \<Rightarrow> (of_sum r, \<lparr>env = e, trace = trace w @ [MoveAssign dst src r]\<rparr>))"

definition call_destroy ::
  "('a, 'w) element \<Rightarrow> 'a \<Rightarrow> ('a, 'w) world \<Rightarrow> ('a, 'w) world" where
  "call_destroy T x w = \<lparr>env = destroy T x (env w), trace = trace w @ [Destroy x]\<rparr>"

section \<open>RawMemory\<close>

text \<open>
  \<^verbatim>\<open>RawMemory<T>\<close> has the members \<^verbatim>\<open>buffer_\<close> and \<^verbatim>\<open>capacity_\<close> (named \<open>m_buffer\<close> and
  \<open>m_capacity\<close> here: an Isabelle name cannot end in an underscore). The storage
  \<^verbatim>\<open>buffer_\<close> points to has one owner, so the record carries it: \<open>slots\<close> has one entry
  for each slot of the buffer, \<open>None\<close> for an uninitialized slot and \<open>Some x\<close> for a slot
  that holds the live object \<open>x\<close>.
\<close>

record 'a RawMemory =
  m_buffer :: addr
  m_capacity :: nat
  slots :: "'a option list"

definition RawMemory_default :: "'a RawMemory" where
  "RawMemory_default = \<lparr>m_buffer = nullptr, m_capacity = 0, slots = []\<rparr>"

definition Allocate ::
  "('a, 'w) element \<Rightarrow> nat \<Rightarrow> ('a, 'w) world \<Rightarrow> addr outcome \<times> ('a, 'w) world" where
  "Allocate T n w =
     (if n \<noteq> 0 then call_operator_new T (size_t_mul n (size_of T)) w
      else (Returned nullptr, w))"

definition Deallocate :: "('a, 'w) element \<Rightarrow> addr \<Rightarrow> ('a, 'w) world \<Rightarrow> ('a, 'w) world" where
  "Deallocate T buf w = call_operator_delete T buf w"

text \<open>
  The block that \<^verbatim>\<open>Allocate(n)\<close> obtains has the bytes it asked for, so it has room for
  this many objects: \<open>n\<close> of them when \<^verbatim>\<open>n * sizeof(T)\<close> did not wrap, fewer when it did.
\<close>

definition block_slots :: "('a, 'w) element \<Rightarrow> nat \<Rightarrow> nat" where
  "block_slots T n = size_t_mul n (size_of T) div size_of T"

text \<open>
  \<^verbatim>\<open>explicit RawMemory(size_t capacity)\<close>: \<^verbatim>\<open>capacity_\<close> is the number asked for, whatever
  the block has room for.
\<close>

definition RawMemory_sized ::
  "('a, 'w) element \<Rightarrow> nat \<Rightarrow> ('a, 'w) world \<Rightarrow> 'a RawMemory outcome \<times> ('a, 'w) world" where
  "RawMemory_sized T capacity w =
     (case Allocate T capacity w of
        (Returned p, w1) \<Rightarrow>
          (Returned \<lparr>m_buffer = p, m_capacity = capacity,
                     slots = replicate (block_slots T capacity) None\<rparr>, w1)
      | (Raised x, w1) \<Rightarrow> (Raised x, w1)
      | (Undefined, w1) \<Rightarrow> (Undefined, w1))"

text \<open>\<^verbatim>\<open>~RawMemory()\<close>\<close>

definition RawMemory_dtor ::
  "('a, 'w) element \<Rightarrow> 'a RawMemory \<Rightarrow> ('a, 'w) world \<Rightarrow> ('a, 'w) world" where
  "RawMemory_dtor T m w = Deallocate T (m_buffer m) w"

text \<open>\<^verbatim>\<open>operator+\<close>, with its assertion.\<close>

definition RawMemory_plus :: "'a RawMemory \<Rightarrow> nat \<Rightarrow> addr option" where
  "RawMemory_plus m offset = (if offset \<le> m_capacity m then Some (m_buffer m + offset) else None)"

text \<open>\<^verbatim>\<open>operator[]\<close>, with its assertion; the reference it returns is the slot's address.\<close>

definition RawMemory_index :: "'a RawMemory \<Rightarrow> nat \<Rightarrow> addr option" where
  "RawMemory_index m index = (if index < m_capacity m then Some (m_buffer m + index) else None)"

definition RawMemory_Swap :: "'a RawMemory \<Rightarrow> 'a RawMemory \<Rightarrow> 'a RawMemory \<times> 'a RawMemory" where
  "RawMemory_Swap m other = (other, m)"

definition GetAddress :: "'a RawMemory \<Rightarrow> addr" where
  "GetAddress m = m_buffer m"

definition RawMemory_Capacity :: "'a RawMemory \<Rightarrow> nat" where
  "RawMemory_Capacity m = m_capacity m"

subsection \<open>Access to the slots\<close>

text \<open>Reading slot \<open>i\<close>: \<open>None\<close> outside the buffer and on an uninitialized slot.\<close>

definition read_at :: "'a RawMemory \<Rightarrow> nat \<Rightarrow> 'a option" where
  "read_at m i = (if i < length (slots m) then slots m ! i else None)"

text \<open>Storing into slot \<open>i\<close>: \<open>None\<close> outside the buffer.\<close>

definition write_at :: "'a RawMemory \<Rightarrow> nat \<Rightarrow> 'a option \<Rightarrow> 'a RawMemory option" where
  "write_at m i s =
     (if i < length (slots m) then Some (m\<lparr>slots := (slots m)[i := s]\<rparr>) else None)"

section \<open>The standard algorithms the container calls\<close>

text \<open>
  A pointer into a buffer is the buffer and a slot number. Every algorithm returns how
  it ended, the buffers it wrote to, and the world.
\<close>

text \<open>\<^verbatim>\<open>std::destroy_at(p)\<close>\<close>

definition destroy_at ::
  "('a, 'w) element \<Rightarrow> 'a RawMemory \<Rightarrow> nat \<Rightarrow> ('a, 'w) world
     \<Rightarrow> unit outcome \<times> 'a RawMemory \<times> ('a, 'w) world" where
  "destroy_at T m i w =
     (case read_at m i of
        None \<Rightarrow> (Undefined, m, w)
      | Some x \<Rightarrow>
          (case write_at m i None of
             None \<Rightarrow> (Undefined, m, w)
           | Some m1 \<Rightarrow> (Returned (), m1, call_destroy T x w)))"

text \<open>\<^verbatim>\<open>std::destroy_n(first, n)\<close>\<close>

fun destroy_n ::
  "('a, 'w) element \<Rightarrow> 'a RawMemory \<Rightarrow> nat \<Rightarrow> nat \<Rightarrow> ('a, 'w) world
     \<Rightarrow> unit outcome \<times> 'a RawMemory \<times> ('a, 'w) world" where
  "destroy_n T m first 0 w = (Returned (), m, w)"
| "destroy_n T m first (Suc n) w =
     (case destroy_at T m first w of
        (Returned u, m1, w1) \<Rightarrow> destroy_n T m1 (Suc first) n w1
      | (Raised x, m1, w1) \<Rightarrow> (Raised x, m1, w1)
      | (Undefined, m1, w1) \<Rightarrow> (Undefined, m1, w1))"

text \<open>
  The clean-up of the \<^verbatim>\<open>uninitialized_*\<close> algorithms: the objects built so far, in
  \<open>[result, cur)\<close>, are destroyed and the exception goes on.
\<close>

definition unwind ::
  "('a, 'w) element \<Rightarrow> exn \<Rightarrow> 'a RawMemory \<Rightarrow> nat \<Rightarrow> nat \<Rightarrow> ('a, 'w) world
     \<Rightarrow> unit outcome \<times> 'a RawMemory \<times> ('a, 'w) world" where
  "unwind T x dst result cur w =
     (case destroy_n T dst result (cur - result) w of
        (Returned u, dst1, w1) \<Rightarrow> (Raised x, dst1, w1)
      | (Raised y, dst1, w1) \<Rightarrow> (Undefined, dst1, w1)
      | (Undefined, dst1, w1) \<Rightarrow> (Undefined, dst1, w1))"

text \<open>
  \<^verbatim>\<open>std::uninitialized_value_construct_n(first, n)\<close>: \<open>result\<close> is where it started,
  \<open>cur\<close> the slot it builds next.
\<close>

fun uninitialized_value_construct_loop ::
  "('a, 'w) element \<Rightarrow> nat \<Rightarrow> nat \<Rightarrow> nat \<Rightarrow> 'a RawMemory \<Rightarrow> ('a, 'w) world
     \<Rightarrow> unit outcome \<times> 'a RawMemory \<times> ('a, 'w) world" where
  "uninitialized_value_construct_loop T result cur 0 dst w = (Returned (), dst, w)"
| "uninitialized_value_construct_loop T result cur (Suc n) dst w =
     (case call_value_construct T w of
        (Returned y, w1) \<Rightarrow>
          (case write_at dst cur (Some y) of
             None \<Rightarrow> (Undefined, dst, w1)
           | Some dst1 \<Rightarrow> uninitialized_value_construct_loop T result (Suc cur) n dst1 w1)
      | (Raised x, w1) \<Rightarrow> unwind T x dst result cur w1
      | (Undefined, w1) \<Rightarrow> (Undefined, dst, w1))"

definition uninitialized_value_construct_n ::
  "('a, 'w) element \<Rightarrow> 'a RawMemory \<Rightarrow> nat \<Rightarrow> nat \<Rightarrow> ('a, 'w) world
     \<Rightarrow> unit outcome \<times> 'a RawMemory \<times> ('a, 'w) world" where
  "uninitialized_value_construct_n T dst first n w =
     uninitialized_value_construct_loop T first first n dst w"

text \<open>\<^verbatim>\<open>std::uninitialized_copy_n(first, n, result)\<close>, from buffer \<open>src\<close> into buffer \<open>dst\<close>.\<close>

fun uninitialized_copy_loop ::
  "('a, 'w) element \<Rightarrow> 'a RawMemory \<Rightarrow> nat \<Rightarrow> nat \<Rightarrow> nat \<Rightarrow> nat \<Rightarrow> 'a RawMemory
     \<Rightarrow> ('a, 'w) world \<Rightarrow> unit outcome \<times> 'a RawMemory \<times> ('a, 'w) world" where
  "uninitialized_copy_loop T src first 0 result cur dst w = (Returned (), dst, w)"
| "uninitialized_copy_loop T src first (Suc n) result cur dst w =
     (case read_at src first of
        None \<Rightarrow> (Undefined, dst, w)
      | Some x \<Rightarrow>
          (case call_copy_construct T x w of
             (Returned y, w1) \<Rightarrow>
               (case write_at dst cur (Some y) of
                  None \<Rightarrow> (Undefined, dst, w1)
                | Some dst1 \<Rightarrow> uninitialized_copy_loop T src (Suc first) n result (Suc cur) dst1 w1)
           | (Raised x, w1) \<Rightarrow> unwind T x dst result cur w1
           | (Undefined, w1) \<Rightarrow> (Undefined, dst, w1)))"

definition uninitialized_copy_n ::
  "('a, 'w) element \<Rightarrow> 'a RawMemory \<Rightarrow> nat \<Rightarrow> nat \<Rightarrow> 'a RawMemory \<Rightarrow> nat \<Rightarrow> ('a, 'w) world
     \<Rightarrow> unit outcome \<times> 'a RawMemory \<times> ('a, 'w) world" where
  "uninitialized_copy_n T src first n dst result w =
     uninitialized_copy_loop T src first n result result dst w"

text \<open>
  \<^verbatim>\<open>std::uninitialized_move_n(first, n, result)\<close>: as the copy, but each source is left
  in its moved-from state, so the source buffer is returned too.
\<close>

fun uninitialized_move_loop ::
  "('a, 'w) element \<Rightarrow> 'a RawMemory \<Rightarrow> nat \<Rightarrow> nat \<Rightarrow> nat \<Rightarrow> nat \<Rightarrow> 'a RawMemory
     \<Rightarrow> ('a, 'w) world \<Rightarrow> unit outcome \<times> 'a RawMemory \<times> 'a RawMemory \<times> ('a, 'w) world" where
  "uninitialized_move_loop T src first 0 result cur dst w = (Returned (), src, dst, w)"
| "uninitialized_move_loop T src first (Suc n) result cur dst w =
     (case read_at src first of
        None \<Rightarrow> (Undefined, src, dst, w)
      | Some x \<Rightarrow>
          (case call_move_construct T x w of
             (Returned (y, x'), w1) \<Rightarrow>
               (case (write_at src first (Some x'), write_at dst cur (Some y)) of
                  (Some src1, Some dst1) \<Rightarrow>
                    uninitialized_move_loop T src1 (Suc first) n result (Suc cur) dst1 w1
                | _ \<Rightarrow> (Undefined, src, dst, w1))
           | (Raised x, w1) \<Rightarrow>
               (case unwind T x dst result cur w1 of (r, dst1, w2) \<Rightarrow> (r, src, dst1, w2))
           | (Undefined, w1) \<Rightarrow> (Undefined, src, dst, w1)))"

definition uninitialized_move_n ::
  "('a, 'w) element \<Rightarrow> 'a RawMemory \<Rightarrow> nat \<Rightarrow> nat \<Rightarrow> 'a RawMemory \<Rightarrow> nat \<Rightarrow> ('a, 'w) world
     \<Rightarrow> unit outcome \<times> 'a RawMemory \<times> 'a RawMemory \<times> ('a, 'w) world" where
  "uninitialized_move_n T src first n dst result w =
     uninitialized_move_loop T src first n result result dst w"

text \<open>
  \<^verbatim>\<open>std::copy(first, last, d_first)\<close> from buffer \<open>src\<close> into buffer \<open>dst\<close>, by copy
  assignment; \<open>n\<close> is \<open>last - first\<close>.
\<close>

fun std_copy ::
  "('a, 'w) element \<Rightarrow> 'a RawMemory \<Rightarrow> nat \<Rightarrow> nat \<Rightarrow> 'a RawMemory \<Rightarrow> nat \<Rightarrow> ('a, 'w) world
     \<Rightarrow> unit outcome \<times> 'a RawMemory \<times> ('a, 'w) world" where
  "std_copy T src first 0 dst d_first w = (Returned (), dst, w)"
| "std_copy T src first (Suc n) dst d_first w =
     (case (read_at src first, read_at dst d_first) of
        (Some s, Some d) \<Rightarrow>
          (case call_copy_assign T d s w of
             (Returned d', w1) \<Rightarrow>
               (case write_at dst d_first (Some d') of
                  None \<Rightarrow> (Undefined, dst, w1)
                | Some dst1 \<Rightarrow> std_copy T src (Suc first) n dst1 (Suc d_first) w1)
           | (Raised x, w1) \<Rightarrow> (Raised x, dst, w1)
           | (Undefined, w1) \<Rightarrow> (Undefined, dst, w1))
      | _ \<Rightarrow> (Undefined, dst, w))"

text \<open>The assignment \<^verbatim>\<open>*d = std::move(*s)\<close> between two slots of one buffer.\<close>

definition move_assign_slot ::
  "('a, 'w) element \<Rightarrow> 'a RawMemory \<Rightarrow> nat \<Rightarrow> nat \<Rightarrow> ('a, 'w) world
     \<Rightarrow> unit outcome \<times> 'a RawMemory \<times> ('a, 'w) world" where
  "move_assign_slot T m d s w =
     (case (read_at m d, read_at m s) of
        (Some dv, Some sv) \<Rightarrow>
          (case call_move_assign T dv sv w of
             (Returned (dv', sv'), w1) \<Rightarrow>
               (Returned (), m\<lparr>slots := (slots m)[s := Some sv', d := Some dv']\<rparr>, w1)
           | (Raised x, w1) \<Rightarrow> (Raised x, m, w1)
           | (Undefined, w1) \<Rightarrow> (Undefined, m, w1))
      | _ \<Rightarrow> (Undefined, m, w))"

text \<open>
  \<^verbatim>\<open>std::move(first, last, d_first)\<close> inside one buffer, front to back; \<open>n\<close> is
  \<open>last - first\<close>.
\<close>

fun std_move ::
  "('a, 'w) element \<Rightarrow> 'a RawMemory \<Rightarrow> nat \<Rightarrow> nat \<Rightarrow> nat \<Rightarrow> ('a, 'w) world
     \<Rightarrow> unit outcome \<times> 'a RawMemory \<times> ('a, 'w) world" where
  "std_move T m first 0 d_first w = (Returned (), m, w)"
| "std_move T m first (Suc n) d_first w =
     (case move_assign_slot T m d_first first w of
        (Returned u, m1, w1) \<Rightarrow> std_move T m1 (Suc first) n (Suc d_first) w1
      | (Raised x, m1, w1) \<Rightarrow> (Raised x, m1, w1)
      | (Undefined, m1, w1) \<Rightarrow> (Undefined, m1, w1))"

text \<open>
  \<^verbatim>\<open>std::move_backward(first, last, d_last)\<close> inside one buffer, back to front:
  \<^verbatim>\<open>*(--d_last) = std::move(*(--last))\<close> while \<^verbatim>\<open>first != last\<close>; \<open>n\<close> is \<open>last - first\<close>.
\<close>

fun std_move_backward ::
  "('a, 'w) element \<Rightarrow> 'a RawMemory \<Rightarrow> nat \<Rightarrow> nat \<Rightarrow> nat \<Rightarrow> ('a, 'w) world
     \<Rightarrow> unit outcome \<times> 'a RawMemory \<times> ('a, 'w) world" where
  "std_move_backward T m first 0 d_last w = (Returned (), m, w)"
| "std_move_backward T m first (Suc n) d_last w =
     (if d_last = 0 then (Undefined, m, w)
      else
        (case move_assign_slot T m (d_last - 1) (first + n) w of
           (Returned u, m1, w1) \<Rightarrow> std_move_backward T m1 first n (d_last - 1) w1
         | (Raised x, m1, w1) \<Rightarrow> (Raised x, m1, w1)
         | (Undefined, m1, w1) \<Rightarrow> (Undefined, m1, w1)))"

text \<open>
  The relocation block that the source writes out at each of its four uses:
  \<^verbatim>\<open>if constexpr (std::is_nothrow_move_constructible_v<T> || !std::is_copy_constructible_v<T>)
    std::uninitialized_move_n(first, n, result);
  else
    std::uninitialized_copy_n(first, n, result);\<close>
\<close>

definition relocate_n ::
  "('a, 'w) element \<Rightarrow> 'a RawMemory \<Rightarrow> nat \<Rightarrow> nat \<Rightarrow> 'a RawMemory \<Rightarrow> nat \<Rightarrow> ('a, 'w) world
     \<Rightarrow> unit outcome \<times> 'a RawMemory \<times> 'a RawMemory \<times> ('a, 'w) world" where
  "relocate_n T src first n dst result w =
     (if is_nothrow_move_constructible T \<or> \<not> is_copy_constructible T
      then uninitialized_move_n T src first n dst result w
      else (case uninitialized_copy_n T src first n dst result w of
              (r, dst1, w1) \<Rightarrow> (r, src, dst1, w1)))"

text \<open>\<^verbatim>\<open>new (m + i) T(std::forward<Args>(args)...)\<close>\<close>

definition placement_new ::
  "('w \<Rightarrow> 'a outcome \<times> 'w) \<Rightarrow> 'a RawMemory \<Rightarrow> nat \<Rightarrow> ('a, 'w) world
     \<Rightarrow> unit outcome \<times> 'a RawMemory \<times> ('a, 'w) world" where
  "placement_new args m i w =
     (case RawMemory_plus m i of
        None \<Rightarrow> (Undefined, m, w)
      | Some p \<Rightarrow>
          (case call_construct args w of
             (Returned y, w1) \<Rightarrow>
               (case write_at m i (Some y) of
                  None \<Rightarrow> (Undefined, m, w1)
                | Some m1 \<Rightarrow> (Returned (), m1, w1))
           | (Raised x, w1) \<Rightarrow> (Raised x, m, w1)
           | (Undefined, w1) \<Rightarrow> (Undefined, m, w1)))"

section \<open>Vector\<close>

text \<open>\<^verbatim>\<open>Vector<T>\<close> has the members \<^verbatim>\<open>data_\<close> and \<^verbatim>\<open>size_\<close>.\<close>

record 'a Vector =
  m_data :: "'a RawMemory"
  m_size :: nat

text \<open>Iterators are \<^verbatim>\<open>T*\<close>: addresses.\<close>

definition Vector_begin :: "'a Vector \<Rightarrow> addr" where
  "Vector_begin v = GetAddress (m_data v)"

definition Vector_end :: "'a Vector \<Rightarrow> addr" where
  "Vector_end v = GetAddress (m_data v) + m_size v"

definition Size :: "'a Vector \<Rightarrow> nat" where
  "Size v = m_size v"

definition Capacity :: "'a Vector \<Rightarrow> nat" where
  "Capacity v = RawMemory_Capacity (m_data v)"

text \<open>\<^verbatim>\<open>operator[]\<close>, with its assertion.\<close>

definition Vector_index :: "'a Vector \<Rightarrow> nat \<Rightarrow> addr option" where
  "Vector_index v index = (if index < m_size v then RawMemory_index (m_data v) index else None)"

text \<open>\<^verbatim>\<open>Vector() = default\<close>\<close>

definition Vector_default :: "'a Vector" where
  "Vector_default = \<lparr>m_data = RawMemory_default, m_size = 0\<rparr>"

text \<open>
  \<^verbatim>\<open>explicit Vector(size_t size)\<close>. When the body of a constructor throws, the members
  built so far are destroyed: here \<^verbatim>\<open>data_\<close>.
\<close>

definition Vector_sized ::
  "('a, 'w) element \<Rightarrow> nat \<Rightarrow> ('a, 'w) world \<Rightarrow> 'a Vector outcome \<times> ('a, 'w) world" where
  "Vector_sized T n w =
     (case RawMemory_sized T n w of
        (Returned d, w1) \<Rightarrow>
          (if n > 0 then
             (case uninitialized_value_construct_n T d 0 n w1 of
                (Returned u, d1, w2) \<Rightarrow> (Returned \<lparr>m_data = d1, m_size = n\<rparr>, w2)
              | (Raised x, d1, w2) \<Rightarrow> (Raised x, RawMemory_dtor T d1 w2)
              | (Undefined, d1, w2) \<Rightarrow> (Undefined, w2))
           else (Returned \<lparr>m_data = d, m_size = 0\<rparr>, w1))
      | (Raised x, w1) \<Rightarrow> (Raised x, w1)
      | (Undefined, w1) \<Rightarrow> (Undefined, w1))"

text \<open>\<^verbatim>\<open>Vector(const Vector& other)\<close>\<close>

definition Vector_copy ::
  "('a, 'w) element \<Rightarrow> 'a Vector \<Rightarrow> ('a, 'w) world \<Rightarrow> 'a Vector outcome \<times> ('a, 'w) world" where
  "Vector_copy T other w =
     (case RawMemory_sized T (m_size other) w of
        (Returned d, w1) \<Rightarrow>
          (if m_size other > 0 then
             (case uninitialized_copy_n T (m_data other) 0 (m_size other) d 0 w1 of
                (Returned u, d1, w2) \<Rightarrow> (Returned \<lparr>m_data = d1, m_size = m_size other\<rparr>, w2)
              | (Raised x, d1, w2) \<Rightarrow> (Raised x, RawMemory_dtor T d1 w2)
              | (Undefined, d1, w2) \<Rightarrow> (Undefined, w2))
           else (Returned \<lparr>m_data = d, m_size = 0\<rparr>, w1))
      | (Raised x, w1) \<Rightarrow> (Raised x, w1)
      | (Undefined, w1) \<Rightarrow> (Undefined, w1))"

text \<open>\<^verbatim>\<open>Swap\<close> on two different objects: the new \<^verbatim>\<open>*this\<close> and the new \<^verbatim>\<open>other\<close>.\<close>

definition Vector_Swap :: "'a Vector \<Rightarrow> 'a Vector \<Rightarrow> 'a Vector \<times> 'a Vector" where
  "Vector_Swap v other =
     (case RawMemory_Swap (m_data v) (m_data other) of
        (d, od) \<Rightarrow> (\<lparr>m_data = d, m_size = m_size other\<rparr>, \<lparr>m_data = od, m_size = m_size v\<rparr>))"

text \<open>\<^verbatim>\<open>Vector(Vector&& other) noexcept\<close>: the new object and what is left of \<^verbatim>\<open>other\<close>.\<close>

definition Vector_move :: "'a Vector \<Rightarrow> 'a Vector \<times> 'a Vector" where
  "Vector_move other = Vector_Swap Vector_default other"

text \<open>\<^verbatim>\<open>~Vector()\<close>, then the destructor of the member \<^verbatim>\<open>data_\<close>.\<close>

definition Vector_dtor ::
  "('a, 'w) element \<Rightarrow> 'a Vector \<Rightarrow> ('a, 'w) world \<Rightarrow> unit outcome \<times> ('a, 'w) world" where
  "Vector_dtor T v w =
     (case destroy_n T (m_data v) 0 (m_size v) w of
        (Returned u, d1, w1) \<Rightarrow> (Returned (), RawMemory_dtor T d1 w1)
      | (Raised x, d1, w1) \<Rightarrow> (Raised x, w1)
      | (Undefined, d1, w1) \<Rightarrow> (Undefined, w1))"

text \<open>
  A member function returns how it ended, the vector, and the world. After
  \<open>Undefined\<close> the other two components mean nothing.
\<close>

definition Reserve ::
  "('a, 'w) element \<Rightarrow> nat \<Rightarrow> 'a Vector \<Rightarrow> ('a, 'w) world
     \<Rightarrow> unit outcome \<times> 'a Vector \<times> ('a, 'w) world" where
  "Reserve T new_capacity v w =
     (if new_capacity \<le> RawMemory_Capacity (m_data v) then (Returned (), v, w)
      else
        (case RawMemory_sized T new_capacity w of
           (Returned new_data, w1) \<Rightarrow>
             (case (if m_size v > 0
                    then relocate_n T (m_data v) 0 (m_size v) new_data 0 w1
                    else (Returned (), m_data v, new_data, w1)) of
                (Returned u, old1, nd1, w2) \<Rightarrow>
                  (case destroy_n T old1 0 (m_size v) w2 of
                     (Returned u, old2, w3) \<Rightarrow>
                       (case RawMemory_Swap old2 nd1 of
                          (d, nd2) \<Rightarrow> (Returned (), v\<lparr>m_data := d\<rparr>, RawMemory_dtor T nd2 w3))
                   | (Raised x, old2, w3) \<Rightarrow> (Undefined, v, w3)
                   | (Undefined, old2, w3) \<Rightarrow> (Undefined, v, w3))
              | (Raised x, old1, nd1, w2) \<Rightarrow> (Raised x, v\<lparr>m_data := old1\<rparr>, RawMemory_dtor T nd1 w2)
              | (Undefined, old1, nd1, w2) \<Rightarrow> (Undefined, v, w2))
         | (Raised x, w1) \<Rightarrow> (Raised x, v, w1)
         | (Undefined, w1) \<Rightarrow> (Undefined, v, w1)))"

text \<open>\<^verbatim>\<open>PopBack() noexcept\<close>\<close>

definition PopBack ::
  "('a, 'w) element \<Rightarrow> 'a Vector \<Rightarrow> ('a, 'w) world
     \<Rightarrow> unit outcome \<times> 'a Vector \<times> ('a, 'w) world" where
  "PopBack T v w =
     (if m_size v > 0 then
        (case destroy_at T (m_data v) (m_size v - 1) w of
           (Returned u, d1, w1) \<Rightarrow> (Returned (), \<lparr>m_data = d1, m_size = m_size v - 1\<rparr>, w1)
         | (Raised x, d1, w1) \<Rightarrow> (Undefined, v, w1)
         | (Undefined, d1, w1) \<Rightarrow> (Undefined, v, w1))
      else (Undefined, v, w))"

text \<open>
  \<^verbatim>\<open>EmplaceBack\<close>. The local \<^verbatim>\<open>new_data\<close> is destroyed when its block is left, by
  an exception or at the end, where it holds the old buffer. The reference returned is
  the address of the new element.
\<close>

definition EmplaceBack ::
  "('a, 'w) element \<Rightarrow> ('w \<Rightarrow> 'a outcome \<times> 'w) \<Rightarrow> 'a Vector \<Rightarrow> ('a, 'w) world
     \<Rightarrow> addr outcome \<times> 'a Vector \<times> ('a, 'w) world" where
  "EmplaceBack T args v w =
     (if m_size v = Capacity v then
        (let new_capacity = (if m_size v = 0 then 1 else m_size v * 2) in
         case RawMemory_sized T new_capacity w of
           (Returned new_data, w1) \<Rightarrow>
             (case placement_new args new_data (m_size v) w1 of
                (Returned u, nd1, w2) \<Rightarrow>
                  (case relocate_n T (m_data v) 0 (m_size v) nd1 0 w2 of
                     (Returned u, old1, nd2, w3) \<Rightarrow>
                       (case destroy_n T old1 0 (m_size v) w3 of
                          (Returned u, old2, w4) \<Rightarrow>
                            (case RawMemory_Swap old2 nd2 of
                               (d, nd3) \<Rightarrow>
                                 (case RawMemory_index d (m_size v + 1 - 1) of
                                    Some p \<Rightarrow>
                                      (Returned p, \<lparr>m_data = d, m_size = m_size v + 1\<rparr>,
                                       RawMemory_dtor T nd3 w4)
                                  | None \<Rightarrow> (Undefined, v, w4)))
                        | (Raised x, old2, w4) \<Rightarrow> (Undefined, v, w4)
                        | (Undefined, old2, w4) \<Rightarrow> (Undefined, v, w4))
                   | (Raised x, old1, nd2, w3) \<Rightarrow>
                       (case destroy_at T nd2 (m_size v) w3 of
                          (Returned u, nd3, w4) \<Rightarrow>
                            (Raised x, v\<lparr>m_data := old1\<rparr>, RawMemory_dtor T nd3 w4)
                        | (Raised y, nd3, w4) \<Rightarrow> (Undefined, v, w4)
                        | (Undefined, nd3, w4) \<Rightarrow> (Undefined, v, w4))
                   | (Undefined, old1, nd2, w3) \<Rightarrow> (Undefined, v, w3))
              | (Raised x, nd1, w2) \<Rightarrow> (Raised x, v, RawMemory_dtor T nd1 w2)
              | (Undefined, nd1, w2) \<Rightarrow> (Undefined, v, w2))
         | (Raised x, w1) \<Rightarrow> (Raised x, v, w1)
         | (Undefined, w1) \<Rightarrow> (Undefined, v, w1))
      else
        (case placement_new args (m_data v) (m_size v) w of
           (Returned u, d1, w1) \<Rightarrow>
             (case RawMemory_index d1 (m_size v + 1 - 1) of
                Some p \<Rightarrow> (Returned p, \<lparr>m_data = d1, m_size = m_size v + 1\<rparr>, w1)
              | None \<Rightarrow> (Undefined, v, w1))
         | (Raised x, d1, w1) \<Rightarrow> (Raised x, v, w1)
         | (Undefined, d1, w1) \<Rightarrow> (Undefined, v, w1)))"

text \<open>\<^verbatim>\<open>PushBack(const T& value)\<close> and \<^verbatim>\<open>PushBack(T&& value)\<close>\<close>

definition by_copy :: "('a, 'w) element \<Rightarrow> 'a \<Rightarrow> 'w \<Rightarrow> 'a outcome \<times> 'w" where
  "by_copy T value e = (case copy_construct T value e of (r, e1) \<Rightarrow> (of_sum r, e1))"

definition by_move :: "('a, 'w) element \<Rightarrow> 'a \<Rightarrow> 'w \<Rightarrow> 'a outcome \<times> 'w" where
  "by_move T value e =
     (case move_construct T value e of
        (Inl x, e1) \<Rightarrow> (if is_nothrow_move_constructible T then Undefined else Raised x, e1)
      | (Inr (y, value'), e1) \<Rightarrow> (Returned y, e1))"

definition discard :: "'r outcome \<Rightarrow> unit outcome" where
  "discard r = (case r of Returned y \<Rightarrow> Returned () | Raised x \<Rightarrow> Raised x | Undefined \<Rightarrow> Undefined)"

definition PushBack_copy ::
  "('a, 'w) element \<Rightarrow> 'a \<Rightarrow> 'a Vector \<Rightarrow> ('a, 'w) world
     \<Rightarrow> unit outcome \<times> 'a Vector \<times> ('a, 'w) world" where
  "PushBack_copy T value v w =
     (case EmplaceBack T (by_copy T value) v w of (r, v1, w1) \<Rightarrow> (discard r, v1, w1))"

definition PushBack_move ::
  "('a, 'w) element \<Rightarrow> 'a \<Rightarrow> 'a Vector \<Rightarrow> ('a, 'w) world
     \<Rightarrow> unit outcome \<times> 'a Vector \<times> ('a, 'w) world" where
  "PushBack_move T value v w =
     (case EmplaceBack T (by_move T value) v w of (r, v1, w1) \<Rightarrow> (discard r, v1, w1))"

text \<open>
  \<^verbatim>\<open>Emplace\<close>, in three parts. First the block under \<^verbatim>\<open>if (size_ == Capacity())\<close>,
  for the offset \<^verbatim>\<open>pos - begin()\<close>.
\<close>

definition Emplace_reallocate ::
  "('a, 'w) element \<Rightarrow> nat \<Rightarrow> ('w \<Rightarrow> 'a outcome \<times> 'w) \<Rightarrow> 'a Vector \<Rightarrow> ('a, 'w) world
     \<Rightarrow> addr outcome \<times> 'a Vector \<times> ('a, 'w) world" where
  "Emplace_reallocate T offset args v w =
     (let new_capacity = (if m_size v = 0 then 1 else m_size v * 2) in
      case RawMemory_sized T new_capacity w of
        (Returned new_data, w1) \<Rightarrow>
          (case placement_new args new_data offset w1 of
             (Returned u, nd1, w2) \<Rightarrow>
               (case (if offset > 0
                      then relocate_n T (m_data v) 0 offset nd1 0 w2
                      else (Returned (), m_data v, nd1, w2)) of
                  (Returned u, old1, nd2, w3) \<Rightarrow>
                    (case (if m_size v > offset
                           then relocate_n T old1 offset (m_size v - offset) nd2 (offset + 1) w3
                           else (Returned (), old1, nd2, w3)) of
                       (Returned u, old2, nd3, w4) \<Rightarrow>
                         (case destroy_n T old2 0 (m_size v) w4 of
                            (Returned u, old3, w5) \<Rightarrow>
                              (case RawMemory_Swap old3 nd3 of
                                 (d, nd4) \<Rightarrow>
                                   (Returned (GetAddress d + offset),
                                    \<lparr>m_data = d, m_size = m_size v + 1\<rparr>,
                                    RawMemory_dtor T nd4 w5))
                          | (Raised x, old3, w5) \<Rightarrow> (Undefined, v, w5)
                          | (Undefined, old3, w5) \<Rightarrow> (Undefined, v, w5))
                     | (Raised x, old2, nd3, w4) \<Rightarrow>
                         (case destroy_n T nd3 0 (offset + 1) w4 of
                            (Returned u, nd4, w5) \<Rightarrow>
                              (Raised x, v\<lparr>m_data := old2\<rparr>, RawMemory_dtor T nd4 w5)
                          | (Raised y, nd4, w5) \<Rightarrow> (Undefined, v, w5)
                          | (Undefined, nd4, w5) \<Rightarrow> (Undefined, v, w5))
                     | (Undefined, old2, nd3, w4) \<Rightarrow> (Undefined, v, w4))
                | (Raised x, old1, nd2, w3) \<Rightarrow>
                    (case destroy_at T nd2 offset w3 of
                       (Returned u, nd3, w4) \<Rightarrow>
                         (Raised x, v\<lparr>m_data := old1\<rparr>, RawMemory_dtor T nd3 w4)
                     | (Raised y, nd3, w4) \<Rightarrow> (Undefined, v, w4)
                     | (Undefined, nd3, w4) \<Rightarrow> (Undefined, v, w4))
                | (Undefined, old1, nd2, w3) \<Rightarrow> (Undefined, v, w3))
           | (Raised x, nd1, w2) \<Rightarrow> (Raised x, v, RawMemory_dtor T nd1 w2)
           | (Undefined, nd1, w2) \<Rightarrow> (Undefined, v, w2))
      | (Raised x, w1) \<Rightarrow> (Raised x, v, w1)
      | (Undefined, w1) \<Rightarrow> (Undefined, v, w1))"

text \<open>
  The handler of the second \<^verbatim>\<open>try\<close> of the last branch, with \<^verbatim>\<open>size_\<close> already
  incremented to \<open>size1\<close>: \<^verbatim>\<open>std::destroy_at(data_ + size_ - 1); --size_; throw;\<close> and then
  the destructor of the local \<^verbatim>\<open>temp\<close>.
\<close>

definition Emplace_handler ::
  "('a, 'w) element \<Rightarrow> exn \<Rightarrow> 'a RawMemory \<Rightarrow> nat \<Rightarrow> 'a \<Rightarrow> 'a Vector \<Rightarrow> ('a, 'w) world
     \<Rightarrow> addr outcome \<times> 'a Vector \<times> ('a, 'w) world" where
  "Emplace_handler T x d size1 temp v w =
     (case RawMemory_plus d size1 of
        None \<Rightarrow> (Undefined, v, w)
      | Some p \<Rightarrow>
          (case destroy_at T d (size1 - 1) w of
             (Returned u, d1, w1) \<Rightarrow>
               (Raised x, \<lparr>m_data = d1, m_size = size1 - 1\<rparr>, call_destroy T temp w1)
           | (Raised y, d1, w1) \<Rightarrow> (Undefined, v, w1)
           | (Undefined, d1, w1) \<Rightarrow> (Undefined, v, w1)))"

text \<open>
  The last branch: \<^verbatim>\<open>size_ != Capacity()\<close> and \<^verbatim>\<open>offset != size_\<close>. The local \<^verbatim>\<open>temp\<close>
  is destroyed however the branch is left.
\<close>

definition Emplace_shift ::
  "('a, 'w) element \<Rightarrow> nat \<Rightarrow> ('w \<Rightarrow> 'a outcome \<times> 'w) \<Rightarrow> 'a Vector \<Rightarrow> ('a, 'w) world
     \<Rightarrow> addr outcome \<times> 'a Vector \<times> ('a, 'w) world" where
  "Emplace_shift T offset args v w =
     (case call_construct args w of
        (Returned temp, w1) \<Rightarrow>
          (case (if m_size v > 0 then read_at (m_data v) (m_size v - 1) else None) of
             None \<Rightarrow> (Undefined, v, w1)
           | Some lst \<Rightarrow>
               (case call_move_construct T lst w1 of
                  (Returned (y, lst'), w2) \<Rightarrow>
                    (case write_at (m_data v) (m_size v - 1) (Some lst') of
                       None \<Rightarrow> (Undefined, v, w2)
                     | Some d1 \<Rightarrow>
                         (case write_at d1 (m_size v) (Some y) of
                            None \<Rightarrow> (Undefined, v, w2)
                          | Some d2 \<Rightarrow>
                              (let size1 = m_size v + 1 in
                               case std_move_backward T d2 offset (size1 - 1 - offset) size1 w2 of
                                 (Returned u, d3, w3) \<Rightarrow>
                                   (case (RawMemory_index d3 offset, read_at d3 offset) of
                                      (Some p, Some dv) \<Rightarrow>
                                        (case call_move_assign T dv temp w3 of
                                           (Returned (dv', temp'), w4) \<Rightarrow>
                                             (case write_at d3 offset (Some dv') of
                                                None \<Rightarrow> (Undefined, v, w4)
                                              | Some d4 \<Rightarrow>
                                                  (Returned (GetAddress d4 + offset),
                                                   \<lparr>m_data = d4, m_size = size1\<rparr>,
                                                   call_destroy T temp' w4))
                                         | (Raised x, w4) \<Rightarrow> Emplace_handler T x d3 size1 temp v w4
                                         | (Undefined, w4) \<Rightarrow> (Undefined, v, w4))
                                    | _ \<Rightarrow> (Undefined, v, w3))
                               | (Raised x, d3, w3) \<Rightarrow> Emplace_handler T x d3 size1 temp v w3
                               | (Undefined, d3, w3) \<Rightarrow> (Undefined, v, w3))))
                | (Raised x, w2) \<Rightarrow> (Raised x, v, call_destroy T temp w2)
                | (Undefined, w2) \<Rightarrow> (Undefined, v, w2)))
      | (Raised x, w1) \<Rightarrow> (Raised x, v, w1)
      | (Undefined, w1) \<Rightarrow> (Undefined, v, w1))"

definition Emplace ::
  "('a, 'w) element \<Rightarrow> addr \<Rightarrow> ('w \<Rightarrow> 'a outcome \<times> 'w) \<Rightarrow> 'a Vector \<Rightarrow> ('a, 'w) world
     \<Rightarrow> addr outcome \<times> 'a Vector \<times> ('a, 'w) world" where
  "Emplace T pos args v w =
     (let offset = pos - Vector_begin v in
      if \<not> (Vector_begin v \<le> pos \<and> pos \<le> Vector_end v) then (Undefined, v, w)
      else if m_size v = Capacity v then Emplace_reallocate T offset args v w
      else if offset = m_size v then
        (case EmplaceBack T args v w of
           (Returned p, v1, w1) \<Rightarrow> (Returned (Vector_begin v1 + offset), v1, w1)
         | (Raised x, v1, w1) \<Rightarrow> (Raised x, v1, w1)
         | (Undefined, v1, w1) \<Rightarrow> (Undefined, v1, w1))
      else Emplace_shift T offset args v w)"

text \<open>\<^verbatim>\<open>Insert(const_iterator pos, const T& value)\<close> and \<^verbatim>\<open>Insert(const_iterator pos, T&& value)\<close>\<close>

definition Insert_copy ::
  "('a, 'w) element \<Rightarrow> addr \<Rightarrow> 'a \<Rightarrow> 'a Vector \<Rightarrow> ('a, 'w) world
     \<Rightarrow> addr outcome \<times> 'a Vector \<times> ('a, 'w) world" where
  "Insert_copy T pos value v w = Emplace T pos (by_copy T value) v w"

definition Insert_move ::
  "('a, 'w) element \<Rightarrow> addr \<Rightarrow> 'a \<Rightarrow> 'a Vector \<Rightarrow> ('a, 'w) world
     \<Rightarrow> addr outcome \<times> 'a Vector \<times> ('a, 'w) world" where
  "Insert_move T pos value v w = Emplace T pos (by_move T value) v w"

text \<open>\<^verbatim>\<open>Erase\<close>\<close>

definition Erase ::
  "('a, 'w) element \<Rightarrow> addr \<Rightarrow> 'a Vector \<Rightarrow> ('a, 'w) world
     \<Rightarrow> addr outcome \<times> 'a Vector \<times> ('a, 'w) world" where
  "Erase T pos v w =
     (let offset = pos - Vector_begin v in
      if \<not> (Vector_begin v \<le> pos \<and> pos < Vector_end v) then (Undefined, v, w)
      else
        (case std_move T (m_data v) (offset + 1) (m_size v - (offset + 1)) offset w of
           (Returned u, d1, w1) \<Rightarrow>
             (case PopBack T (v\<lparr>m_data := d1\<rparr>) w1 of
                (Returned u, v2, w2) \<Rightarrow> (Returned (Vector_begin v2 + offset), v2, w2)
              | (Raised x, v2, w2) \<Rightarrow> (Undefined, v2, w2)
              | (Undefined, v2, w2) \<Rightarrow> (Undefined, v2, w2))
         | (Raised x, d1, w1) \<Rightarrow> (Raised x, v\<lparr>m_data := d1\<rparr>, w1)
         | (Undefined, d1, w1) \<Rightarrow> (Undefined, v, w1)))"

text \<open>\<^verbatim>\<open>Resize\<close>\<close>

definition Resize ::
  "('a, 'w) element \<Rightarrow> nat \<Rightarrow> 'a Vector \<Rightarrow> ('a, 'w) world
     \<Rightarrow> unit outcome \<times> 'a Vector \<times> ('a, 'w) world" where
  "Resize T new_size v w =
     (if new_size < m_size v then
        (case destroy_n T (m_data v) new_size (m_size v - new_size) w of
           (Returned u, d1, w1) \<Rightarrow> (Returned (), \<lparr>m_data = d1, m_size = new_size\<rparr>, w1)
         | (Raised x, d1, w1) \<Rightarrow> (Undefined, v, w1)
         | (Undefined, d1, w1) \<Rightarrow> (Undefined, v, w1))
      else if new_size > m_size v then
        (case Reserve T new_size v w of
           (Returned u, v1, w1) \<Rightarrow>
             (case uninitialized_value_construct_n T (m_data v1) (m_size v1)
                     (new_size - m_size v1) w1 of
                (Returned u, d2, w2) \<Rightarrow> (Returned (), \<lparr>m_data = d2, m_size = new_size\<rparr>, w2)
              | (Raised x, d2, w2) \<Rightarrow> (Raised x, v1\<lparr>m_data := d2\<rparr>, w2)
              | (Undefined, d2, w2) \<Rightarrow> (Undefined, v1, w2))
         | (Raised x, v1, w1) \<Rightarrow> (Raised x, v1, w1)
         | (Undefined, v1, w1) \<Rightarrow> (Undefined, v1, w1))
      else (Returned (), v, w))"

text \<open>The private \<^verbatim>\<open>AssignFrom(const Vector& other)\<close>, called on a different object.\<close>

definition AssignFrom ::
  "('a, 'w) element \<Rightarrow> 'a Vector \<Rightarrow> 'a Vector \<Rightarrow> ('a, 'w) world
     \<Rightarrow> unit outcome \<times> 'a Vector \<times> ('a, 'w) world" where
  "AssignFrom T other v w =
     (case std_copy T (m_data other) 0 (min (m_size other) (m_size v)) (m_data v) 0 w of
        (Returned u, d1, w1) \<Rightarrow>
          (if m_size other > m_size v then
             (case uninitialized_copy_n T (m_data other) (m_size v) (m_size other - m_size v)
                     d1 (m_size v) w1 of
                (Returned u, d2, w2) \<Rightarrow> (Returned (), \<lparr>m_data = d2, m_size = m_size other\<rparr>, w2)
              | (Raised x, d2, w2) \<Rightarrow> (Raised x, v\<lparr>m_data := d2\<rparr>, w2)
              | (Undefined, d2, w2) \<Rightarrow> (Undefined, v, w2))
           else if m_size other < m_size v then
             (case destroy_n T d1 (m_size other) (m_size v - m_size other) w1 of
                (Returned u, d2, w2) \<Rightarrow> (Returned (), \<lparr>m_data = d2, m_size = m_size other\<rparr>, w2)
              | (Raised x, d2, w2) \<Rightarrow> (Undefined, v, w2)
              | (Undefined, d2, w2) \<Rightarrow> (Undefined, v, w2))
           else (Returned (), \<lparr>m_data = d1, m_size = m_size other\<rparr>, w1))
      | (Raised x, d1, w1) \<Rightarrow> (Raised x, v\<lparr>m_data := d1\<rparr>, w1)
      | (Undefined, d1, w1) \<Rightarrow> (Undefined, v, w1))"

section \<open>Operations on two objects\<close>

text \<open>
  The assignment operators and \<^verbatim>\<open>Swap\<close> take a second vector by reference, which may
  be the object itself. A store maps the address of a \<^verbatim>\<open>Vector\<close> object to the object;
  \<^verbatim>\<open>this != &rhs\<close> compares two such addresses.
\<close>

type_synonym 'a store = "nat \<Rightarrow> 'a Vector"

text \<open>\<^verbatim>\<open>void Swap(Vector& other) noexcept\<close>\<close>

definition Swap :: "nat \<Rightarrow> nat \<Rightarrow> 'a store \<Rightarrow> 'a store" where
  "Swap this other S =
     (if this = other then S
      else (case Vector_Swap (S this) (S other) of (a, b) \<Rightarrow> S(this := a, other := b)))"

text \<open>\<^verbatim>\<open>Vector& operator=(const Vector& rhs)\<close>; the local \<^verbatim>\<open>rhs_copy\<close> dies at the end of its block.\<close>

definition Vector_copy_assign ::
  "('a, 'w) element \<Rightarrow> nat \<Rightarrow> nat \<Rightarrow> 'a store \<Rightarrow> ('a, 'w) world
     \<Rightarrow> unit outcome \<times> 'a store \<times> ('a, 'w) world" where
  "Vector_copy_assign T this rhs S w =
     (if this \<noteq> rhs then
        (if m_size (S rhs) > RawMemory_Capacity (m_data (S this)) then
           (case Vector_copy T (S rhs) w of
              (Returned rhs_copy, w1) \<Rightarrow>
                (case Vector_Swap (S this) rhs_copy of
                   (a, rhs_copy1) \<Rightarrow>
                     (case Vector_dtor T rhs_copy1 w1 of
                        (Returned u, w2) \<Rightarrow> (Returned (), S(this := a), w2)
                      | (Raised x, w2) \<Rightarrow> (Undefined, S, w2)
                      | (Undefined, w2) \<Rightarrow> (Undefined, S, w2)))
            | (Raised x, w1) \<Rightarrow> (Raised x, S, w1)
            | (Undefined, w1) \<Rightarrow> (Undefined, S, w1))
         else
           (case AssignFrom T (S rhs) (S this) w of
              (r, a, w1) \<Rightarrow> (r, S(this := a), w1)))
      else (Returned (), S, w))"

text \<open>\<^verbatim>\<open>Vector& operator=(Vector&& rhs) noexcept\<close>\<close>

definition Vector_move_assign ::
  "('a, 'w) element \<Rightarrow> nat \<Rightarrow> nat \<Rightarrow> 'a store \<Rightarrow> ('a, 'w) world
     \<Rightarrow> unit outcome \<times> 'a store \<times> ('a, 'w) world" where
  "Vector_move_assign T this rhs S w =
     (if this \<noteq> rhs then (Returned (), Swap this rhs S, w) else (Returned (), S, w))"

section \<open>The state of a vector\<close>

text \<open>The elements, slot by slot, when the first \<open>m_size\<close> slots are live.\<close>

definition elements :: "'a Vector \<Rightarrow> 'a list" where
  "elements v = map the (take (m_size v) (slots (m_data v)))"

text \<open>
  The structural invariant: the buffer has \<open>m_capacity\<close> slots, \<open>m_size\<close> of them at
  most are in use, those hold live objects and the others are uninitialized.
\<close>

definition valid :: "'a Vector \<Rightarrow> bool" where
  "valid v \<longleftrightarrow>
     length (slots (m_data v)) = m_capacity (m_data v) \<and>
     m_size v \<le> m_capacity (m_data v) \<and>
     list_all (\<lambda>s. s \<noteq> None) (take (m_size v) (slots (m_data v))) \<and>
     list_all (\<lambda>s. s = None) (drop (m_size v) (slots (m_data v)))"

section \<open>Notions used in the statements\<close>

text \<open>Two buffers that are the same block of storage, whatever their slots hold.\<close>

definition same_block :: "'a RawMemory \<Rightarrow> 'a RawMemory \<Rightarrow> bool" where
  "same_block m m' \<longleftrightarrow>
     m_buffer m' = m_buffer m \<and> m_capacity m' = m_capacity m \<and>
     length (slots m') = length (slots m)"

text \<open>
  An element type whose copies and moves are faithful: the object a copy or move
  constructor builds, and the object a copy or move assignment leaves in its target, has
  the value its source had. (What a move leaves in the source is not restricted.)
\<close>

definition faithful :: "('a, 'w) element \<Rightarrow> bool" where
  "faithful T \<longleftrightarrow>
     (\<forall>x e y e'. copy_construct T x e = (Inr y, e') \<longrightarrow> y = x) \<and>
     (\<forall>x e y x' e'. move_construct T x e = (Inr (y, x'), e') \<longrightarrow> y = x) \<and>
     (\<forall>d s e d' e'. copy_assign T d s e = (Inr d', e') \<longrightarrow> d' = s) \<and>
     (\<forall>d s e d' s' e'. move_assign T d s e = (Inr (d', s'), e') \<longrightarrow> d' = s)"

text \<open>
  The part of that about the constructors, which is all that a relocation calls.
\<close>

definition faithful_construction :: "('a, 'w) element \<Rightarrow> bool" where
  "faithful_construction T \<longleftrightarrow>
     (\<forall>x e y e'. copy_construct T x e = (Inr y, e') \<longrightarrow> y = x) \<and>
     (\<forall>x e y x' e'. move_construct T x e = (Inr (y, x'), e') \<longrightarrow> y = x)"

text \<open>
  A number of objects whose byte count \<^verbatim>\<open>n * sizeof(T)\<close> is a \<^verbatim>\<open>size_t\<close>: what
  \<^verbatim>\<open>Allocate\<close> computes is then what it means.
\<close>

definition fits_size_t :: "('a, 'w) element \<Rightarrow> nat \<Rightarrow> bool" where
  "fits_size_t T n \<longleftrightarrow> 0 < size_of T \<and> n * size_of T < 2 ^ 64"

text \<open>Which collaborator a call in the trace went to, and how often a trace has such a call.\<close>

datatype kind =
    KNew | KDelete | KConstruct | KValueConstruct | KCopyConstruct | KMoveConstruct
  | KCopyAssign | KMoveAssign | KDestroy

fun kind_of :: "'a event \<Rightarrow> kind" where
  "kind_of (OperatorNew n r) = KNew"
| "kind_of (OperatorDelete p) = KDelete"
| "kind_of (Construct r) = KConstruct"
| "kind_of (ValueConstruct r) = KValueConstruct"
| "kind_of (CopyConstruct x r) = KCopyConstruct"
| "kind_of (MoveConstruct x r) = KMoveConstruct"
| "kind_of (CopyAssign d s r) = KCopyAssign"
| "kind_of (MoveAssign d s r) = KMoveAssign"
| "kind_of (Destroy x) = KDestroy"

definition calls :: "kind \<Rightarrow> 'a event list \<Rightarrow> nat" where
  "calls k tr = length (filter (\<lambda>ev. kind_of ev = k) tr)"

text \<open>
  The objects that default construction built, the objects that were destroyed, the
  buffers that were allocated and the buffers that were released, in the order of the
  trace.
\<close>

fun value_constructed_by :: "'a event \<Rightarrow> 'a list" where
  "value_constructed_by (ValueConstruct (Inr y)) = [y]"
| "value_constructed_by ev = []"

fun destroyed_by :: "'a event \<Rightarrow> 'a list" where
  "destroyed_by (Destroy x) = [x]"
| "destroyed_by ev = []"

fun allocated_by :: "'a event \<Rightarrow> addr list" where
  "allocated_by (OperatorNew n (Inr p)) = [p]"
| "allocated_by ev = []"

fun released_by :: "'a event \<Rightarrow> addr list" where
  "released_by (OperatorDelete p) = [p]"
| "released_by ev = []"

definition value_constructed :: "'a event list \<Rightarrow> 'a list" where
  "value_constructed tr = concat (map value_constructed_by tr)"

definition destroyed :: "'a event list \<Rightarrow> 'a list" where
  "destroyed tr = concat (map destroyed_by tr)"

definition allocated :: "'a event list \<Rightarrow> addr list" where
  "allocated tr = concat (map allocated_by tr)"

definition released :: "'a event list \<Rightarrow> addr list" where
  "released tr = concat (map released_by tr)"

fun returned :: "'r outcome \<Rightarrow> bool" where
  "returned (Returned y) = True"
| "returned r = False"

fun raised :: "'r outcome \<Rightarrow> bool" where
  "raised (Raised x) = True"
| "raised r = False"

text \<open>
  What a relocation of the \<open>m_size v\<close> elements of \<open>v\<close> by the rule looks like, for a call
  that started in world \<open>w\<close> and ended with \<open>r\<close> in world \<open>w'\<close>, leaving the vector \<open>v'\<close>. If
  the move constructor is \<^verbatim>\<open>noexcept\<close> or there is no copy constructor, no copy
  constructor is called, and a call that returns has called the move constructor once
  for each element. Otherwise no move constructor is called, a call that returns has
  called the copy constructor once for each element, and a call that lets an
  exception through has left the vector as it was.
\<close>

definition relocated_by_rule ::
  "('a, 'w) element \<Rightarrow> 'a Vector \<Rightarrow> ('a, 'w) world \<Rightarrow> 'r outcome \<Rightarrow> 'a Vector \<Rightarrow> ('a, 'w) world
     \<Rightarrow> bool" where
  "relocated_by_rule T v w r v' w' \<longleftrightarrow>
     (if is_nothrow_move_constructible T \<or> \<not> is_copy_constructible T
      then calls KCopyConstruct (trace w') = calls KCopyConstruct (trace w) \<and>
           (returned r \<longrightarrow>
              calls KMoveConstruct (trace w') = calls KMoveConstruct (trace w) + m_size v)
      else calls KMoveConstruct (trace w') = calls KMoveConstruct (trace w) \<and>
           (returned r \<longrightarrow>
              calls KCopyConstruct (trace w') = calls KCopyConstruct (trace w) + m_size v) \<and>
           (raised r \<longrightarrow> v' = v))"

text \<open>
  The address of the block that a call starting in world \<open>w\<close> obtains when it asks for
  room for \<open>n\<close> objects, if it obtains one.
\<close>

definition new_block :: "('a, 'w) element \<Rightarrow> nat \<Rightarrow> ('a, 'w) world \<Rightarrow> addr option" where
  "new_block T n w =
     (case RawMemory_sized T n w of
        (Returned nd, w1) \<Rightarrow> Some (m_buffer nd)
      | (Raised x, w1) \<Rightarrow> None
      | (Undefined, w1) \<Rightarrow> None)"

text \<open>The slots of a buffer that hold a live object.\<close>

definition live :: "'a RawMemory \<Rightarrow> nat set" where
  "live m = {k. read_at m k \<noteq> None}"

text \<open>The structural invariant of the specification: \<open>size \<le> capacity\<close>.\<close>

definition size_within_capacity :: "'a Vector \<Rightarrow> bool" where
  "size_within_capacity v \<longleftrightarrow> Size v \<le> Capacity v"

section \<open>Element types to run the container on\<close>

text \<open>
  \<^verbatim>\<open>int\<close>: every operation succeeds, a move leaves its source as it was. The
  environment counts the allocations; the \<open>k\<close>-th buffer is at address \<open>100 * k\<close>.
\<close>

definition int_element :: "(int, nat) element" where
  "int_element =
     \<lparr>size_of = 4, is_nothrow_move_constructible = True, is_copy_constructible = True,
      value_construct = (\<lambda>e. (Inr 0, e)),
      copy_construct = (\<lambda>x e. (Inr x, e)),
      move_construct = (\<lambda>x e. (Inr (x, x), e)),
      copy_assign = (\<lambda>d s e. (Inr s, e)),
      move_assign = (\<lambda>d s e. (Inr (s, s), e)),
      destroy = (\<lambda>x e. e),
      operator_new = (\<lambda>n e. (Inr (100 * Suc e), Suc e)),
      operator_delete = (\<lambda>p e. e)\<rparr>"

text \<open>A type like \<^verbatim>\<open>std::string\<close>: a move leaves its source empty.\<close>

definition string_element :: "(string, nat) element" where
  "string_element =
     \<lparr>size_of = 32, is_nothrow_move_constructible = True, is_copy_constructible = True,
      value_construct = (\<lambda>e. (Inr [], e)),
      copy_construct = (\<lambda>x e. (Inr x, e)),
      move_construct = (\<lambda>x e. (Inr (x, []), e)),
      copy_assign = (\<lambda>d s e. (Inr s, e)),
      move_assign = (\<lambda>d s e. (Inr (s, []), e)),
      destroy = (\<lambda>x e. e),
      operator_new = (\<lambda>n e. (Inr (100 * Suc e), Suc e)),
      operator_delete = (\<lambda>p e. e)\<rparr>"

text \<open>
  A type that can be moved but not copied, whose move constructor is not
  \<^verbatim>\<open>noexcept\<close>: it throws on the value \<open>13\<close>, and leaves \<open>0\<close> in a source it moved from.
\<close>

definition move_only_element :: "(int, nat) element" where
  "move_only_element =
     \<lparr>size_of = 4, is_nothrow_move_constructible = False, is_copy_constructible = False,
      value_construct = (\<lambda>e. (Inr 0, e)),
      copy_construct = (\<lambda>x e. (Inl (ElementExn 0), e)),
      move_construct = (\<lambda>x e. if x = 13 then (Inl (ElementExn 13), e) else (Inr (x, 0), e)),
      copy_assign = (\<lambda>d s e. (Inl (ElementExn 0), e)),
      move_assign = (\<lambda>d s e. (Inr (s, 0), e)),
      destroy = (\<lambda>x e. e),
      operator_new = (\<lambda>n e. (Inr (100 * Suc e), Suc e)),
      operator_delete = (\<lambda>p e. e)\<rparr>"

text \<open>
  A copyable type whose copy constructor, copy assignment and move constructor throw on
  the value \<open>13\<close>.
\<close>

definition throwing_copy_element :: "(int, nat) element" where
  "throwing_copy_element =
     \<lparr>size_of = 4, is_nothrow_move_constructible = False, is_copy_constructible = True,
      value_construct = (\<lambda>e. (Inr 0, e)),
      copy_construct = (\<lambda>x e. if x = 13 then (Inl (ElementExn 13), e) else (Inr x, e)),
      move_construct = (\<lambda>x e. if x = 13 then (Inl (ElementExn 13), e) else (Inr (x, 0), e)),
      copy_assign = (\<lambda>d s e. if s = 13 then (Inl (ElementExn 13), e) else (Inr s, e)),
      move_assign = (\<lambda>d s e. (Inr (s, 0), e)),
      destroy = (\<lambda>x e. e),
      operator_new = (\<lambda>n e. (Inr (100 * Suc e), Suc e)),
      operator_delete = (\<lambda>p e. e)\<rparr>"

text \<open>
  A type whose default constructor counts its calls in the environment and throws on
  the third; the object built by call \<open>k\<close> has the value \<open>k\<close>.
\<close>

definition third_fails_element :: "(nat, nat) element" where
  "third_fails_element =
     \<lparr>size_of = 8, is_nothrow_move_constructible = True, is_copy_constructible = True,
      value_construct = (\<lambda>e. if e = 2 then (Inl (ElementExn 3), Suc e) else (Inr e, Suc e)),
      copy_construct = (\<lambda>x e. (Inr x, e)),
      move_construct = (\<lambda>x e. (Inr (x, x), e)),
      copy_assign = (\<lambda>d s e. (Inr s, e)),
      move_assign = (\<lambda>d s e. (Inr (s, s), e)),
      destroy = (\<lambda>x e. e),
      operator_new = (\<lambda>n e. (Inr 100, e)),
      operator_delete = (\<lambda>p e. e)\<rparr>"

definition world0 :: "('a, nat) world" where
  "world0 = \<lparr>env = 0, trace = []\<rparr>"

text \<open>Constructor arguments that build the object \<open>x\<close>, and arguments on which the constructor throws.\<close>

definition emplace_value :: "'a \<Rightarrow> nat \<Rightarrow> 'a outcome \<times> nat" where
  "emplace_value x e = (Returned x, e)"

definition emplace_throws :: "nat \<Rightarrow> 'a outcome \<times> nat" where
  "emplace_throws e = (Raised (ElementExn 7), e)"

text \<open>A vector of the given elements in a buffer at address \<open>p\<close> with \<open>spare\<close> free slots.\<close>

definition vector_of :: "addr \<Rightarrow> 'a list \<Rightarrow> nat \<Rightarrow> 'a Vector" where
  "vector_of p xs spare =
     \<lparr>m_data = \<lparr>m_buffer = p, m_capacity = length xs + spare,
                slots = map Some xs @ replicate spare None\<rparr>,
      m_size = length xs\<rparr>"

section \<open>Every algorithm stays inside its buffer\<close>

lemma same_block_refl [simp]: "same_block m m"
  by (simp add: same_block_def)

lemma same_block_trans: "same_block a b \<Longrightarrow> same_block b c \<Longrightarrow> same_block a c"
  by (simp add: same_block_def)

lemma write_at_block: "write_at m i s = Some m' \<Longrightarrow> same_block m m'"
  by (auto simp: write_at_def same_block_def split: if_splits)

lemma destroy_at_block: "destroy_at T m i w = (r, m', w') \<Longrightarrow> same_block m m'"
  by (auto simp: destroy_at_def split: option.splits dest: write_at_block)

lemma destroy_n_block: "destroy_n T m first n w = (r, m', w') \<Longrightarrow> same_block m m'"
proof (induction n arbitrary: m first w)
  case 0
  then show ?case by simp
next
  case (Suc n)
  then show ?case
    by (auto split: prod.splits outcome.splits dest!: destroy_at_block Suc.IH simp: same_block_def)
qed

lemma destroy_at_not_Raised: "destroy_at T m i w \<noteq> (Raised x, m', w')"
  by (auto simp: destroy_at_def split: option.splits)

lemma destroy_n_not_Raised: "destroy_n T m first n w \<noteq> (Raised x, m', w')"
proof (induction n arbitrary: m first w)
  case 0
  then show ?case by simp
next
  case (Suc n)
  then show ?case
    by (auto split: prod.splits outcome.splits simp: destroy_at_not_Raised)
qed

lemma unwind_block: "unwind T x dst result cur w = (r, m', w') \<Longrightarrow> same_block dst m'"
  by (auto simp: unwind_def split: prod.splits outcome.splits dest: destroy_n_block)

lemma uninitialized_value_construct_loop_block:
  "uninitialized_value_construct_loop T result cur n dst w = (r, m', w') \<Longrightarrow> same_block dst m'"
proof (induction n arbitrary: cur dst w)
  case 0
  then show ?case by simp
next
  case (Suc n)
  then show ?case
    by (auto split: prod.splits outcome.splits option.splits dest!: unwind_block write_at_block Suc.IH simp: same_block_def)
qed

lemma uninitialized_copy_loop_block:
  "uninitialized_copy_loop T src first n result cur dst w = (r, m', w') \<Longrightarrow> same_block dst m'"
proof (induction n arbitrary: first cur dst w)
  case 0
  then show ?case by simp
next
  case (Suc n)
  then show ?case
    by (auto split: prod.splits outcome.splits option.splits dest!: unwind_block write_at_block Suc.IH simp: same_block_def)
qed

lemma uninitialized_move_loop_block:
  "uninitialized_move_loop T src first n result cur dst w = (r, src', m', w')
     \<Longrightarrow> same_block src src' \<and> same_block dst m'"
proof (induction n arbitrary: src first cur dst w)
  case 0
  then show ?case by simp
next
  case (Suc n)
  then show ?case
    by (auto split: prod.splits outcome.splits option.splits dest!: unwind_block write_at_block Suc.IH simp: same_block_def)
qed

lemma relocate_n_block:
  "relocate_n T src first n dst result w = (r, src', dst', w')
     \<Longrightarrow> same_block src src' \<and> same_block dst dst'"
  by (auto simp: relocate_n_def uninitialized_move_n_def uninitialized_copy_n_def
           split: if_splits prod.splits
           dest: uninitialized_move_loop_block uninitialized_copy_loop_block)

lemma placement_new_block: "placement_new args m i w = (r, m', w') \<Longrightarrow> same_block m m'"
  by (auto simp: placement_new_def split: option.splits prod.splits outcome.splits
           dest: write_at_block)

lemma move_assign_slot_block: "move_assign_slot T m d s w = (r, m', w') \<Longrightarrow> same_block m m'"
  by (auto simp: move_assign_slot_def same_block_def
           split: option.splits prod.splits outcome.splits)

lemma std_move_block: "std_move T m first n d_first w = (r, m', w') \<Longrightarrow> same_block m m'"
proof (induction n arbitrary: m first d_first w)
  case 0
  then show ?case by simp
next
  case (Suc n)
  then show ?case
    by (auto split: prod.splits outcome.splits dest!: move_assign_slot_block Suc.IH simp: same_block_def)
qed

lemma std_move_backward_block:
  "std_move_backward T m first n d_last w = (r, m', w') \<Longrightarrow> same_block m m'"
proof (induction n arbitrary: m d_last w)
  case 0
  then show ?case by simp
next
  case (Suc n)
  then show ?case
    by (auto split: if_splits prod.splits outcome.splits dest!: move_assign_slot_block Suc.IH simp: same_block_def)
qed

lemma std_copy_block: "std_copy T src first n dst d_first w = (r, m', w') \<Longrightarrow> same_block dst m'"
proof (induction n arbitrary: first dst d_first w)
  case 0
  then show ?case by simp
next
  case (Suc n)
  then show ?case
    by (auto split: prod.splits outcome.splits option.splits dest!: write_at_block Suc.IH simp: same_block_def)
qed

section \<open>Capacity\<close>

lemma size_t_mul_eq: "size_t_mul a b = (a * b) mod 2 ^ 64"
  by (simp add: size_t_mul_def unat_word_ariths unat_of_nat mod_mult_eq)

lemma block_slots_fits: "fits_size_t T n \<Longrightarrow> block_slots T n = n"
  by (simp add: fits_size_t_def block_slots_def size_t_mul_eq)

lemma block_slots_0 [simp]: "block_slots T 0 = 0"
  by (simp add: block_slots_def size_t_mul_eq)

lemma block_slots_le: "block_slots T n \<le> n"
proof (cases "size_of T = 0")
  case True
  then show ?thesis by (simp add: block_slots_def)
next
  case False
  have "(n * size_of T) mod 2 ^ 64 div size_of T \<le> n * size_of T div size_of T"
    by (rule div_le_mono) simp
  with False show ?thesis by (simp add: block_slots_def size_t_mul_eq)
qed

lemma RawMemory_sized_Returned:
  "RawMemory_sized T n w = (Returned m, w1) \<Longrightarrow>
     m_capacity m = n \<and> slots m = replicate (block_slots T n) None"
  by (auto simp: RawMemory_sized_def split: prod.splits outcome.splits)

lemmas block_dests = relocate_n_block placement_new_block destroy_n_block destroy_at_block

lemma EmplaceBack_Capacity_grow:
  assumes "EmplaceBack T args v w = (Returned p, v', w')" and "m_size v = Capacity v"
  shows "Capacity v' = (if m_size v = 0 then 1 else 2 * m_size v)"
  using assms
  unfolding EmplaceBack_def Capacity_def RawMemory_Capacity_def RawMemory_Swap_def Let_def
  by (simp split: prod.splits outcome.splits option.splits;
      auto dest!: block_dests RawMemory_sized_Returned simp: same_block_def)

lemma EmplaceBack_Capacity_same:
  assumes "EmplaceBack T args v w = (Returned p, v', w')" and "m_size v \<noteq> Capacity v"
  shows "Capacity v' = Capacity v"
  using assms
  unfolding EmplaceBack_def Capacity_def RawMemory_Capacity_def RawMemory_Swap_def Let_def
  by (simp split: prod.splits outcome.splits option.splits;
      auto dest!: block_dests simp: same_block_def)

lemma EmplaceBack_Capacity_Raised:
  assumes "EmplaceBack T args v w = (Raised x, v', w')"
  shows "Capacity v' = Capacity v"
proof (cases "m_size v = Capacity v")
  case True
  with assms show ?thesis
    unfolding EmplaceBack_def Capacity_def RawMemory_Capacity_def RawMemory_Swap_def Let_def
    by (simp split: prod.splits outcome.splits option.splits;
        auto dest!: block_dests simp: same_block_def)
next
  case False
  with assms show ?thesis
    unfolding EmplaceBack_def Capacity_def RawMemory_Capacity_def RawMemory_Swap_def Let_def
    by (simp split: prod.splits outcome.splits option.splits;
        auto dest!: block_dests simp: same_block_def)
qed

lemma Emplace_handler_Capacity:
  "Emplace_handler T x d size1 temp v w = (Raised y, v', w')
     \<Longrightarrow> m_capacity (m_data v') = m_capacity d"
  by (auto simp: Emplace_handler_def split: option.splits prod.splits outcome.splits
           dest!: destroy_at_block simp: same_block_def)

lemma Emplace_handler_not_Returned:
  "Emplace_handler T x d size1 temp v w \<noteq> (Returned p, v', w')"
  by (auto simp: Emplace_handler_def split: option.splits prod.splits outcome.splits)

lemma Emplace_shift_Capacity_Returned:
  assumes "Emplace_shift T offset args v w = (Returned p, v', w')"
  shows "Capacity v' = Capacity v"
  using assms
  unfolding Emplace_shift_def Capacity_def RawMemory_Capacity_def Let_def
  by (simp split: if_splits prod.splits outcome.splits option.splits
           add: Emplace_handler_not_Returned;
      auto dest!: write_at_block std_move_backward_block simp: same_block_def)

lemma Emplace_shift_Capacity_Raised:
  assumes "Emplace_shift T offset args v w = (Raised x, v', w')"
  shows "Capacity v' = Capacity v"
  using assms
  unfolding Emplace_shift_def Capacity_def RawMemory_Capacity_def Let_def
  by (simp split: if_splits prod.splits outcome.splits option.splits;
      auto dest!: write_at_block std_move_backward_block Emplace_handler_Capacity
           simp: same_block_def)

lemma Emplace_reallocate_Capacity_Returned:
  assumes "Emplace_reallocate T offset args v w = (Returned p, v', w')"
  shows "Capacity v' = (if m_size v = 0 then 1 else 2 * m_size v)"
  using assms
  unfolding Emplace_reallocate_def Capacity_def RawMemory_Capacity_def RawMemory_Swap_def Let_def
  by (simp split: prod.splits outcome.splits option.splits;
      auto split: if_splits dest!: block_dests RawMemory_sized_Returned simp: same_block_def)

lemma Emplace_reallocate_Capacity_Raised:
  assumes "Emplace_reallocate T offset args v w = (Raised x, v', w')"
  shows "Capacity v' = Capacity v"
  using assms
  unfolding Emplace_reallocate_def Capacity_def RawMemory_Capacity_def RawMemory_Swap_def Let_def
  by (simp split: prod.splits outcome.splits option.splits;
      auto split: if_splits dest!: block_dests simp: same_block_def)

text \<open>The three branches of Emplace.\<close>

lemma Emplace_cases:
  assumes "Emplace T pos args v w = (r, v', w')"
  obtains
    (out_of_range) "\<not> (Vector_begin v \<le> pos \<and> pos \<le> Vector_end v)" "r = Undefined"
  | (reallocate) "Vector_begin v \<le> pos" "pos \<le> Vector_end v" "m_size v = Capacity v"
      "Emplace_reallocate T (pos - Vector_begin v) args v w = (r, v', w')"
  | (tail) q where "Vector_begin v \<le> pos" "pos \<le> Vector_end v" "m_size v \<noteq> Capacity v"
      "pos - Vector_begin v = m_size v" "EmplaceBack T args v w = (q, v', w')"
      "r = (case q of Returned p \<Rightarrow> Returned (Vector_begin v' + (pos - Vector_begin v))
                    | Raised x \<Rightarrow> Raised x | Undefined \<Rightarrow> Undefined)"
  | (middle) "Vector_begin v \<le> pos" "pos \<le> Vector_end v" "m_size v \<noteq> Capacity v"
      "pos - Vector_begin v \<noteq> m_size v"
      "Emplace_shift T (pos - Vector_begin v) args v w = (r, v', w')"
proof (cases "Vector_begin v \<le> pos \<and> pos \<le> Vector_end v")
  case False
  with assms show thesis
    by (intro out_of_range) (auto simp: Emplace_def Let_def)
next
  case inrange: True
  show thesis
  proof (cases "m_size v = Capacity v")
    case True
    with assms inrange show thesis
      by (intro reallocate) (simp_all add: Emplace_def Let_def)
  next
    case False
    show thesis
    proof (cases "pos - Vector_begin v = m_size v")
      case True
      obtain q v1 w1 where q: "EmplaceBack T args v w = (q, v1, w1)"
        by (cases "EmplaceBack T args v w") auto
      with assms inrange False True have "v1 = v'" "w1 = w'"
        "r = (case q of Returned p \<Rightarrow> Returned (Vector_begin v' + (pos - Vector_begin v))
                    | Raised x \<Rightarrow> Raised x | Undefined \<Rightarrow> Undefined)"
        by (auto simp: Emplace_def Let_def split: outcome.splits)
      with q inrange False True show thesis
        by (intro tail [of q]) simp_all
    next
      case neq: False
      with assms inrange False show thesis
        by (intro middle) (simp_all add: Emplace_def Let_def)
    qed
  qed
qed

lemma Emplace_Capacity_grow:
  assumes "Emplace T pos args v w = (Returned p, v', w')" and "m_size v = Capacity v"
  shows "Capacity v' = (if m_size v = 0 then 1 else 2 * m_size v)"
  using assms(1)
proof (cases rule: Emplace_cases)
  case out_of_range
  then show ?thesis by simp
next
  case reallocate
  from reallocate(4) show ?thesis by (rule Emplace_reallocate_Capacity_Returned)
next
  case (tail q)
  with assms(2) show ?thesis by simp
next
  case middle
  with assms(2) show ?thesis by simp
qed

lemma Emplace_Capacity_same:
  assumes "Emplace T pos args v w = (Returned p, v', w')" and "m_size v \<noteq> Capacity v"
  shows "Capacity v' = Capacity v"
  using assms(1)
proof (cases rule: Emplace_cases)
  case out_of_range
  then show ?thesis by simp
next
  case reallocate
  with assms(2) show ?thesis by simp
next
  case (tail q)
  from tail(6) obtain p' where "q = Returned p'" by (cases q) simp_all
  with tail(5) have "EmplaceBack T args v w = (Returned p', v', w')" by simp
  then show ?thesis using assms(2) by (rule EmplaceBack_Capacity_same)
next
  case middle
  from middle(5) show ?thesis by (rule Emplace_shift_Capacity_Returned)
qed

lemma Emplace_Capacity_Raised:
  assumes "Emplace T pos args v w = (Raised x, v', w')"
  shows "Capacity v' = Capacity v"
  using assms(1)
proof (cases rule: Emplace_cases)
  case out_of_range
  then show ?thesis by simp
next
  case reallocate
  from reallocate(4) show ?thesis by (rule Emplace_reallocate_Capacity_Raised)
next
  case (tail q)
  from tail(6) have "q = Raised x" by (cases q) simp_all
  with tail(5) have "EmplaceBack T args v w = (Raised x, v', w')" by simp
  then show ?thesis by (rule EmplaceBack_Capacity_Raised)
next
  case middle
  from middle(5) show ?thesis by (rule Emplace_shift_Capacity_Raised)
qed

section \<open>Exceptions during relocation\<close>

lemma call_move_construct_nothrow:
  "is_nothrow_move_constructible T \<Longrightarrow> call_move_construct T x w \<noteq> (Raised y, w')"
  by (auto simp: call_move_construct_def split: prod.splits sum.splits)

lemma unwind_not_Returned: "unwind T x dst result cur w \<noteq> (Returned u, m', w')"
  by (auto simp: unwind_def split: prod.splits outcome.splits)

lemma uninitialized_move_loop_nothrow:
  "is_nothrow_move_constructible T \<Longrightarrow>
     uninitialized_move_loop T src first n result cur dst w \<noteq> (Raised x, src', dst', w')"
proof (induction n arbitrary: src first cur dst w)
  case 0
  then show ?case by simp
next
  case (Suc n)
  then show ?case
    by (auto split: prod.splits outcome.splits option.splits
             simp: call_move_construct_nothrow)
qed

text \<open>A move that throws part-way has left the sources before it in their moved-from state;
  a copy never touches its source.\<close>

lemma relocate_n_Raised_src:
  assumes "relocate_n T src first n dst result w = (Raised x, src', dst', w')"
    and "is_copy_constructible T \<or> is_nothrow_move_constructible T"
  shows "src' = src \<and> \<not> is_nothrow_move_constructible T"
  using assms
  by (auto simp: relocate_n_def uninitialized_move_n_def uninitialized_move_loop_nothrow
           split: if_splits prod.splits)

lemma relocate_n_copy_src:
  assumes "relocate_n T src first n dst result w = (r, src', dst', w')"
    and "\<not> is_nothrow_move_constructible T"
    and "is_copy_constructible T \<or> is_nothrow_move_constructible T"
  shows "src' = src"
  using assms by (auto simp: relocate_n_def split: prod.splits)

lemma placement_new_Raised:
  assumes "i \<le> m_capacity m" and "args (env w) = (Raised x, e)"
  shows "placement_new args m i w = (Raised x, m, \<lparr>env = e, trace = trace w @ [Construct (Raised x)]\<rparr>)"
  using assms by (simp add: placement_new_def RawMemory_plus_def call_construct_def)

lemma EmplaceBack_constructor_throws:
  assumes "m_size v = Capacity v"
    and "RawMemory_sized T (if m_size v = 0 then 1 else m_size v * 2) w = (Returned nd, w1)"
    and "args (env w1) = (Raised x, e)"
  shows "EmplaceBack T args v w =
           (Raised x, v, RawMemory_dtor T nd \<lparr>env = e, trace = trace w1 @ [Construct (Raised x)]\<rparr>)"
proof -
  from assms(2) have "m_capacity nd = (if m_size v = 0 then 1 else m_size v * 2)"
    by (auto dest: RawMemory_sized_Returned)
  then have "m_size v \<le> m_capacity nd" by (simp split: if_splits)
  with placement_new_Raised [of "m_size v" nd args w1 x e] assms show ?thesis
    by (simp add: EmplaceBack_def)
qed

lemma Emplace_constructor_throws:
  assumes "m_size v = Capacity v" and "Vector_begin v \<le> pos" and "pos \<le> Vector_end v"
    and "RawMemory_sized T (if m_size v = 0 then 1 else m_size v * 2) w = (Returned nd, w1)"
    and "args (env w1) = (Raised x, e)"
  shows "Emplace T pos args v w =
           (Raised x, v, RawMemory_dtor T nd \<lparr>env = e, trace = trace w1 @ [Construct (Raised x)]\<rparr>)"
proof -
  from assms(4) have "m_capacity nd = (if m_size v = 0 then 1 else m_size v * 2)"
    by (auto dest: RawMemory_sized_Returned)
  moreover from assms(2,3) have "pos - Vector_begin v \<le> m_size v"
    by (simp add: Vector_begin_def Vector_end_def)
  ultimately have "pos - Vector_begin v \<le> m_capacity nd" by (simp split: if_splits)
  with placement_new_Raised [of "pos - Vector_begin v" nd args w1 x e] assms show ?thesis
    by (simp add: Emplace_def Emplace_reallocate_def)
qed

lemma update_m_data_same [simp]: "v\<lparr>m_data := m_data v\<rparr> = v"
  by simp

lemma EmplaceBack_grow_Raised_unchanged:
  assumes "EmplaceBack T args v w = (Raised x, v', w')" and "m_size v = Capacity v"
    and "is_copy_constructible T \<or> is_nothrow_move_constructible T"
  shows "v' = v"
  using assms(1,2)
  unfolding EmplaceBack_def RawMemory_Swap_def Let_def
  by (simp split: prod.splits outcome.splits option.splits;
      auto dest!: relocate_n_Raised_src [OF _ assms(3)])

lemma Emplace_reallocate_Raised_unchanged:
  assumes "Emplace_reallocate T offset args v w = (Raised x, v', w')"
    and "is_copy_constructible T \<or> is_nothrow_move_constructible T"
  shows "v' = v"
  using assms(1)
  unfolding Emplace_reallocate_def RawMemory_Swap_def Let_def
  by (simp split: prod.splits outcome.splits option.splits;
      auto split: if_splits dest!: relocate_n_Raised_src [OF _ assms(2)]
           dest: relocate_n_copy_src [OF _ _ assms(2)])

lemma Emplace_grow_Raised_unchanged:
  assumes "Emplace T pos args v w = (Raised x, v', w')" and "m_size v = Capacity v"
    and "is_copy_constructible T \<or> is_nothrow_move_constructible T"
  shows "v' = v"
  using assms(1)
proof (cases rule: Emplace_cases)
  case out_of_range
  then show ?thesis by simp
next
  case reallocate
  from reallocate(4) assms(3) show ?thesis by (rule Emplace_reallocate_Raised_unchanged)
next
  case (tail q)
  with assms(2) show ?thesis by simp
next
  case middle
  with assms(2) show ?thesis by simp
qed

section \<open>Faithful copies and moves; Erase\<close>

lemma faithful_copy_construct:
  "faithful_construction T \<Longrightarrow> copy_construct T x e = (Inr y, e') \<Longrightarrow> y = x"
  unfolding faithful_construction_def by blast

lemma faithful_move_construct:
  "faithful_construction T \<Longrightarrow> move_construct T x e = (Inr (y, x'), e') \<Longrightarrow> y = x"
  unfolding faithful_construction_def by blast

lemma faithful_copy_assign:
  "faithful T \<Longrightarrow> copy_assign T d s e = (Inr d', e') \<Longrightarrow> d' = s"
  unfolding faithful_def by blast

lemma faithful_move_assign:
  "faithful T \<Longrightarrow> move_assign T d s e = (Inr (d', s'), e') \<Longrightarrow> d' = s"
  unfolding faithful_def by blast

lemma call_copy_construct_faithful:
  "call_copy_construct T x w = (Returned y, w') \<Longrightarrow> faithful_construction T \<Longrightarrow> y = x"
  by (auto simp: call_copy_construct_def of_sum_def split: prod.splits sum.splits
           dest: faithful_copy_construct)

lemma call_move_construct_faithful:
  "call_move_construct T x w = (Returned (y, x'), w') \<Longrightarrow> faithful_construction T \<Longrightarrow> y = x"
  by (auto simp: call_move_construct_def split: prod.splits sum.splits if_splits
           dest: faithful_move_construct)

lemma call_copy_assign_faithful:
  "call_copy_assign T d s w = (Returned d', w') \<Longrightarrow> faithful T \<Longrightarrow> d' = s"
  by (auto simp: call_copy_assign_def of_sum_def split: prod.splits sum.splits
           dest: faithful_copy_assign)

lemma call_move_assign_faithful:
  "call_move_assign T dv sv w = (Returned (dv', sv'), w') \<Longrightarrow> faithful T \<Longrightarrow> dv' = sv"
  by (auto simp: call_move_assign_def of_sum_def split: prod.splits sum.splits
           dest: faithful_move_assign)

lemma move_assign_slot_Returned:
  assumes "move_assign_slot T m d s w = (Returned u, m', w')" and "faithful T"
  shows "d < length (slots m) \<and> s < length (slots m) \<and> slots m ! s \<noteq> None \<and>
         (\<exists>z. slots m' = (slots m)[s := Some z, d := slots m ! s])"
  using assms
  by (auto simp: move_assign_slot_def read_at_def
           split: option.splits prod.splits outcome.splits if_splits
           dest!: call_move_assign_faithful)

lemma std_move_shift:
  assumes "std_move T m (Suc i) n i w = (Returned u, m', w')" and "faithful T"
  shows "length (slots m') = length (slots m) \<and>
         (\<forall>j. j < i \<or> i + n < j \<longrightarrow> slots m' ! j = slots m ! j) \<and>
         (\<forall>j. i \<le> j \<and> j < i + n \<longrightarrow> slots m' ! j = slots m ! Suc j)"
  using assms(1)
proof (induction n arbitrary: m i w)
  case 0
  then show ?case by auto
next
  case (Suc n)
  from Suc.prems obtain m1 w1 where
    step: "move_assign_slot T m i (Suc i) w = (Returned (), m1, w1)" and
    rest: "std_move T m1 (Suc (Suc i)) n (Suc i) w1 = (Returned u, m', w')"
    by (auto split: prod.splits outcome.splits)
  from move_assign_slot_Returned [OF step assms(2)] obtain z where
    i: "i < length (slots m)" "Suc i < length (slots m)" and
    m1: "slots m1 = (slots m)[Suc i := Some z, i := slots m ! Suc i]"
    by auto
  from Suc.IH [OF rest] have
    len: "length (slots m') = length (slots m1)" and
    out: "\<And>j. j < Suc i \<or> Suc i + n < j \<Longrightarrow> slots m' ! j = slots m1 ! j" and
    mid: "\<And>j. Suc i \<le> j \<and> j < Suc i + n \<Longrightarrow> slots m' ! j = slots m1 ! Suc j"
    by auto
  have "slots m' ! j = slots m ! j" if "j < i \<or> i + Suc n < j" for j
    using that out [of j] by (auto simp: m1)
  moreover have "slots m' ! j = slots m ! Suc j" if "i \<le> j \<and> j < i + Suc n" for j
  proof (cases "j = i")
    case True
    with out [of i] i show ?thesis by (simp add: m1)
  next
    case False
    with that mid [of j] show ?thesis by (simp add: m1)
  qed
  ultimately show ?case using len by (simp add: m1)
qed

lemma Erase_Returned:
  assumes "Erase T pos v w = (Returned p, v', w')"
  obtains d1 w1 d2 where
    "Vector_begin v \<le> pos" "pos < Vector_end v" "0 < m_size v"
    "std_move T (m_data v) (Suc (pos - Vector_begin v)) (m_size v - Suc (pos - Vector_begin v))
       (pos - Vector_begin v) w = (Returned (), d1, w1)"
    "destroy_at T d1 (m_size v - 1) w1 = (Returned (), d2, w')"
    "v' = \<lparr>m_data = d2, m_size = m_size v - 1\<rparr>"
    "p = Vector_begin v' + (pos - Vector_begin v)"
proof -
  from assms have inrange: "Vector_begin v \<le> pos" "pos < Vector_end v"
    by (auto simp: Erase_def Let_def split: if_splits)
  with assms that show thesis
    unfolding Erase_def PopBack_def Let_def
    by (simp split: prod.splits outcome.splits if_splits)
qed

lemma destroy_at_Returned:
  "destroy_at T m i w = (Returned u, m', w') \<Longrightarrow>
     i < length (slots m) \<and> slots m' = (slots m)[i := None] \<and>
     m_buffer m' = m_buffer m \<and> m_capacity m' = m_capacity m \<and>
     (\<exists>x. slots m ! i = Some x \<and> w' = call_destroy T x w)"
  by (auto simp: destroy_at_def read_at_def write_at_def split: option.splits if_splits)

lemma Erase_position:
  assumes "Erase T pos v w = (Returned p, v', w')"
  shows "p = pos \<and> p = Vector_begin v' + (pos - Vector_begin v) \<and>
         Vector_begin v' = Vector_begin v \<and> m_size v' = m_size v - 1 \<and>
         Vector_begin v \<le> pos \<and> pos < Vector_end v \<and>
         (p = Vector_end v' \<longleftrightarrow> pos - Vector_begin v = m_size v - 1)"
  using assms
proof (cases rule: Erase_Returned)
  case (1 d1 w1 d2)
  from 1(4) have "same_block (m_data v) d1" by (rule std_move_block)
  moreover from 1(5) have "same_block d1 d2" by (rule destroy_at_block)
  ultimately have "m_buffer d2 = m_buffer (m_data v)" by (simp add: same_block_def)
  with 1 show ?thesis
    by (auto simp: Vector_begin_def Vector_end_def GetAddress_def)
qed

lemma Erase_elements:
  assumes "Erase T pos v w = (Returned p, v', w')" and "faithful T"
  shows "elements v' =
           take (pos - Vector_begin v) (elements v) @ drop (Suc (pos - Vector_begin v)) (elements v) \<and>
         length (elements v) = m_size v"
  using assms(1)
proof (cases rule: Erase_Returned)
  case (1 d1 w1 d2)
  let ?off = "pos - Vector_begin v"
  let ?n = "m_size v"
  from 1(1,2) have off: "?off < ?n" by (auto simp: Vector_begin_def Vector_end_def)
  from std_move_shift [OF 1(4) assms(2)] have
    len: "length (slots d1) = length (slots (m_data v))" and
    out: "\<And>j. j < ?off \<Longrightarrow> slots d1 ! j = slots (m_data v) ! j" and
    mid: "\<And>j. ?off \<le> j \<and> j < ?off + (?n - Suc ?off) \<Longrightarrow> slots d1 ! j = slots (m_data v) ! Suc j"
    by auto
  from destroy_at_Returned [OF 1(5)] have
    last: "?n - 1 < length (slots d1)" and d2: "slots d2 = (slots d1)[?n - 1 := None]"
    by auto
  from last len off have n: "?n \<le> length (slots (m_data v))" by simp
  have "elements v' = take ?off (elements v) @ drop (Suc ?off) (elements v)"
  proof (rule nth_equalityI)
    show "length (elements v') = length (take ?off (elements v) @ drop (Suc ?off) (elements v))"
      using 1(6) off n last len by (simp add: elements_def d2 min_def)
  next
    fix j assume "j < length (elements v')"
    with 1(6) last have j: "j < ?n - 1" by (simp add: elements_def d2)
    show "elements v' ! j = (take ?off (elements v) @ drop (Suc ?off) (elements v)) ! j"
    proof (cases "j < ?off")
      case True
      with j off n last len out [of j] show ?thesis
        by (simp add: 1(6) elements_def d2 nth_append)
    next
      case False
      with j off n last len mid [of j] show ?thesis
        by (simp add: 1(6) elements_def d2 nth_append min_def)
    qed
  qed
  moreover from n have "length (elements v) = ?n" by (simp add: elements_def)
  ultimately show ?thesis by simp
qed

lemma Erase_next_element:
  assumes "Erase T pos v w = (Returned p, v', w')" and "faithful T"
    and "pos - Vector_begin v < m_size v'"
  shows "elements v' ! (pos - Vector_begin v) = elements v ! Suc (pos - Vector_begin v)"
proof -
  from Erase_position [OF assms(1)] have "m_size v' = m_size v - 1" by simp
  with assms(3) have "Suc (pos - Vector_begin v) < m_size v" by simp
  with Erase_elements [OF assms(1,2)] show ?thesis
    by (simp add: nth_append)
qed

section \<open>What the algorithms leave in the slots\<close>

lemma read_at_write_at:
  "write_at m i s = Some m' \<Longrightarrow>
     (\<forall>k. read_at m' k = (if k = i then s else read_at m k)) \<and>
     length (slots m') = length (slots m) \<and> i < length (slots m)"
  by (auto simp: write_at_def read_at_def split: if_splits)

lemma read_at_replicate [simp]:
  "read_at \<lparr>m_buffer = p, m_capacity = c, slots = replicate n None\<rparr> k = None"
  by (simp add: read_at_def)

lemma read_at_Some_length: "read_at m k = Some x \<Longrightarrow> k < length (slots m)"
  by (simp add: read_at_def split: if_splits)

lemma destroy_at_read:
  assumes "destroy_at T m i w = (Returned u, m', w')"
  shows "(\<forall>k. read_at m' k = (if k = i then None else read_at m k)) \<and>
         read_at m i \<noteq> None \<and> length (slots m') = length (slots m)"
  using assms
  by (auto simp: destroy_at_def split: option.splits dest!: read_at_write_at)

lemma destroy_n_read:
  assumes "destroy_n T m first n w = (Returned u, m', w')"
  shows "(\<forall>k. read_at m' k = (if first \<le> k \<and> k < first + n then None else read_at m k)) \<and>
         (\<forall>k. first \<le> k \<and> k < first + n \<longrightarrow> read_at m k \<noteq> None) \<and>
         length (slots m') = length (slots m)"
  using assms
proof (induction n arbitrary: m first w)
  case 0
  then show ?case by auto
next
  case (Suc n)
  from Suc.prems obtain m1 w1 where
    step: "destroy_at T m first w = (Returned (), m1, w1)" and
    rest: "destroy_n T m1 (Suc first) n w1 = (Returned u, m', w')"
    by (auto split: prod.splits outcome.splits)
  note a = destroy_at_read [OF step]
  note b = Suc.IH [OF rest]
  have "read_at m' k = (if first \<le> k \<and> k < first + Suc n then None else read_at m k)" for k
    using a b by auto
  moreover have "read_at m k \<noteq> None" if "first \<le> k \<and> k < first + Suc n" for k
  proof (cases "k = first")
    case True
    with a show ?thesis by simp
  next
    case False
    with that b have "read_at m1 k \<noteq> None" by auto
    with False a show ?thesis by auto
  qed
  ultimately show ?case using a b by auto
qed

lemma unwind_read:
  assumes "unwind T x dst result cur w = (Raised y, dst', w')" and "result \<le> cur"
  shows "(\<forall>k. read_at dst' k = (if result \<le> k \<and> k < cur then None else read_at dst k)) \<and>
         length (slots dst') = length (slots dst) \<and> y = x"
  using assms
  by (auto simp: unwind_def split: prod.splits outcome.splits dest!: destroy_n_read)

lemma uninitialized_copy_loop_Returned:
  assumes "uninitialized_copy_loop T src first n result cur dst w = (Returned u, dst', w')"
    and "faithful_construction T"
  shows "(\<forall>k. read_at dst' k =
              (if cur \<le> k \<and> k < cur + n then read_at src (first + (k - cur)) else read_at dst k)) \<and>
         (\<forall>i<n. read_at src (first + i) \<noteq> None) \<and>
         (0 < n \<longrightarrow> cur + n \<le> length (slots dst))"
  using assms(1)
proof (induction n arbitrary: first cur dst w)
  case 0
  then show ?case by auto
next
  case (Suc n)
  from Suc.prems obtain x y w1 dst1 where
    rd: "read_at src first = Some x" and
    call: "call_copy_construct T x w = (Returned y, w1)" and
    wr: "write_at dst cur (Some y) = Some dst1" and
    rest: "uninitialized_copy_loop T src (Suc first) n result (Suc cur) dst1 w1 = (Returned u, dst', w')"
    by (auto split: prod.splits outcome.splits option.splits simp: unwind_not_Returned)
  from call assms(2) have y: "y = x" by (rule call_copy_construct_faithful)
  note a = read_at_write_at [OF wr]
  note b = Suc.IH [OF rest]
  have "read_at dst' k =
          (if cur \<le> k \<and> k < cur + Suc n then read_at src (first + (k - cur)) else read_at dst k)" for k
  proof (cases "k = cur")
    case True
    with a b rd y show ?thesis by simp
  next
    case False
    then have "k < cur \<or> Suc cur \<le> k" by arith
    then show ?thesis
    proof
      assume "k < cur"
      with a b show ?thesis by simp
    next
      assume k: "Suc cur \<le> k"
      then have "Suc first + (k - Suc cur) = first + (k - cur)" by arith
      with k a b show ?thesis by auto
    qed
  qed
  moreover have "read_at src (first + i) \<noteq> None" if "i < Suc n" for i
  proof (cases i)
    case 0
    with rd show ?thesis by simp
  next
    case (Suc j)
    with that b have "read_at src (Suc first + j) \<noteq> None" by auto
    with Suc show ?thesis by simp
  qed
  moreover have "cur + Suc n \<le> length (slots dst)"
    using a b by (cases n) auto
  ultimately show ?case by blast
qed

lemma uninitialized_copy_loop_Raised:
  assumes "uninitialized_copy_loop T src first n result cur dst w = (Raised x, dst', w')"
    and "result \<le> cur" and "\<forall>k. cur \<le> k \<and> k < cur + n \<longrightarrow> read_at dst k = None"
  shows "(\<forall>k. read_at dst' k = (if result \<le> k \<and> k < cur then None else read_at dst k)) \<and>
         length (slots dst') = length (slots dst)"
  using assms
proof (induction n arbitrary: first cur dst w)
  case 0
  then show ?case by auto
next
  case (Suc n)
  from Suc.prems(1) obtain x0 where rd: "read_at src first = Some x0"
    by (auto split: option.splits)
  obtain r1 w1 where call: "call_copy_construct T x0 w = (r1, w1)"
    by (cases "call_copy_construct T x0 w") auto
  show ?case
  proof (cases r1)
    case (Returned y)
    with Suc.prems(1) rd call obtain dst1 where
      wr: "write_at dst cur (Some y) = Some dst1" and
      rest: "uninitialized_copy_loop T src (Suc first) n result (Suc cur) dst1 w1 = (Raised x, dst', w')"
      by (auto split: option.splits)
    note a = read_at_write_at [OF wr]
    have "\<forall>k. Suc cur \<le> k \<and> k < Suc cur + n \<longrightarrow> read_at dst1 k = None"
      using a Suc.prems(3) by auto
    with Suc.IH [OF rest] Suc.prems(2) have
      b: "\<forall>k. read_at dst' k = (if result \<le> k \<and> k < Suc cur then None else read_at dst1 k)"
        "length (slots dst') = length (slots dst1)"
      by auto
    have "read_at dst' k = (if result \<le> k \<and> k < cur then None else read_at dst k)" for k
    proof (cases "k = cur")
      case True
      with b Suc.prems(2,3) show ?thesis by auto
    next
      case False
      with b a show ?thesis by auto
    qed
    with b a show ?thesis by auto
  next
    case (Raised z)
    with Suc.prems(1) rd call have "unwind T z dst result cur w1 = (Raised x, dst', w')"
      by simp
    from unwind_read [OF this Suc.prems(2)] show ?thesis by simp
  next
    case Undefined
    with Suc.prems(1) rd call show ?thesis by simp
  qed
qed

lemma uninitialized_move_loop_src:
  assumes "uninitialized_move_loop T src first n result cur dst w = (r, src', dst', w')"
  shows "(\<forall>k. (read_at src' k = None) = (read_at src k = None)) \<and>
         (\<forall>k. k < first \<or> first + n \<le> k \<longrightarrow> read_at src' k = read_at src k) \<and>
         length (slots src') = length (slots src)"
  using assms
proof (induction n arbitrary: src first cur dst w)
  case 0
  then show ?case by auto
next
  case (Suc n)
  show ?case
  proof (cases "read_at src first")
    case None
    with Suc.prems show ?thesis by simp
  next
    case (Some x)
    obtain r1 w1 where call: "call_move_construct T x w = (r1, w1)"
      by (cases "call_move_construct T x w") auto
    show ?thesis
    proof (cases r1)
      case (Returned yx)
      obtain y x' where yx: "yx = (y, x')" by (cases yx) auto
      show ?thesis
      proof (cases "write_at src first (Some x')")
        case None
        with Suc.prems Some call Returned yx show ?thesis by simp
      next
        case src1: (Some src1)
        show ?thesis
        proof (cases "write_at dst cur (Some y)")
          case None
          with Suc.prems Some call Returned yx src1 show ?thesis by simp
        next
          case dst1: (Some dst1)
          with Suc.prems Some call Returned yx src1 have
            rest: "uninitialized_move_loop T src1 (Suc first) n result (Suc cur) dst1 w1 =
                     (r, src', dst', w')"
            by simp
          note a = read_at_write_at [OF src1]
          note b = Suc.IH [OF rest]
          have "(read_at src' k = None) = (read_at src k = None)" for k
            using a b Some by (cases "k = first") auto
          moreover have "read_at src' k = read_at src k" if "k < first \<or> first + Suc n \<le> k" for k
            using that a b by auto
          ultimately show ?thesis using a b by auto
        qed
      qed
    next
      case (Raised z)
      with Suc.prems Some call show ?thesis by (auto split: prod.splits)
    next
      case Undefined
      with Suc.prems Some call show ?thesis by simp
    qed
  qed
qed

lemma uninitialized_move_loop_Returned:
  assumes "uninitialized_move_loop T src first n result cur dst w = (Returned u, src', dst', w')"
    and "faithful_construction T"
  shows "(\<forall>k. read_at dst' k =
              (if cur \<le> k \<and> k < cur + n then read_at src (first + (k - cur)) else read_at dst k)) \<and>
         (\<forall>i<n. read_at src (first + i) \<noteq> None) \<and>
         (0 < n \<longrightarrow> cur + n \<le> length (slots dst))"
  using assms(1)
proof (induction n arbitrary: src first cur dst w)
  case 0
  then show ?case by auto
next
  case (Suc n)
  from Suc.prems obtain x y x' w1 src1 dst1 where
    rd: "read_at src first = Some x" and
    call: "call_move_construct T x w = (Returned (y, x'), w1)" and
    ws: "write_at src first (Some x') = Some src1" and
    wr: "write_at dst cur (Some y) = Some dst1" and
    rest: "uninitialized_move_loop T src1 (Suc first) n result (Suc cur) dst1 w1 =
             (Returned u, src', dst', w')"
    by (auto split: prod.splits outcome.splits option.splits simp: unwind_not_Returned)
  from call assms(2) have y: "y = x" by (rule call_move_construct_faithful)
  note s = read_at_write_at [OF ws]
  note a = read_at_write_at [OF wr]
  note b = Suc.IH [OF rest]
  have "read_at dst' k =
          (if cur \<le> k \<and> k < cur + Suc n then read_at src (first + (k - cur)) else read_at dst k)" for k
  proof (cases "k = cur")
    case True
    with a b rd y show ?thesis by simp
  next
    case False
    then have "k < cur \<or> Suc cur \<le> k" by arith
    then show ?thesis
    proof
      assume "k < cur"
      with a b show ?thesis by simp
    next
      assume k: "Suc cur \<le> k"
      then have "Suc first + (k - Suc cur) = first + (k - cur)"
        "Suc first + (k - Suc cur) \<noteq> first" by arith+
      with k a b s show ?thesis by auto
    qed
  qed
  moreover have "read_at src (first + i) \<noteq> None" if "i < Suc n" for i
  proof (cases i)
    case 0
    with rd show ?thesis by simp
  next
    case (Suc j)
    with that b have "read_at src1 (Suc first + j) \<noteq> None" by auto
    with Suc s show ?thesis by auto
  qed
  moreover have "cur + Suc n \<le> length (slots dst)"
    using a b by (cases n) auto
  ultimately show ?case by blast
qed

lemma uninitialized_move_loop_Raised:
  assumes "uninitialized_move_loop T src first n result cur dst w = (Raised x, src', dst', w')"
    and "result \<le> cur" and "\<forall>k. cur \<le> k \<and> k < cur + n \<longrightarrow> read_at dst k = None"
  shows "(\<forall>k. read_at dst' k = (if result \<le> k \<and> k < cur then None else read_at dst k)) \<and>
         length (slots dst') = length (slots dst)"
  using assms
proof (induction n arbitrary: src first cur dst w)
  case 0
  then show ?case by auto
next
  case (Suc n)
  from Suc.prems(1) obtain x0 where rd: "read_at src first = Some x0"
    by (auto split: option.splits)
  obtain r1 w1 where call: "call_move_construct T x0 w = (r1, w1)"
    by (cases "call_move_construct T x0 w") auto
  show ?case
  proof (cases r1)
    case (Returned yx)
    obtain y x' where yx: "yx = (y, x')" by (cases yx) auto
    with Returned Suc.prems(1) rd call obtain src1 dst1 where
      wr: "write_at dst cur (Some y) = Some dst1" and
      rest: "uninitialized_move_loop T src1 (Suc first) n result (Suc cur) dst1 w1 =
               (Raised x, src', dst', w')"
      by (auto split: option.splits)
    note a = read_at_write_at [OF wr]
    have "\<forall>k. Suc cur \<le> k \<and> k < Suc cur + n \<longrightarrow> read_at dst1 k = None"
      using a Suc.prems(3) by auto
    with Suc.IH [OF rest] Suc.prems(2) have
      b: "\<forall>k. read_at dst' k = (if result \<le> k \<and> k < Suc cur then None else read_at dst1 k)"
        "length (slots dst') = length (slots dst1)"
      by auto
    have "read_at dst' k = (if result \<le> k \<and> k < cur then None else read_at dst k)" for k
    proof (cases "k = cur")
      case True
      with b Suc.prems(2,3) show ?thesis by auto
    next
      case False
      with b a show ?thesis by auto
    qed
    with b a show ?thesis by auto
  next
    case (Raised z)
    with Suc.prems(1) rd call obtain r2 where
      "unwind T z dst result cur w1 = (r2, dst', w')" "r2 = Raised x"
      by (auto split: prod.splits)
    then have "unwind T z dst result cur w1 = (Raised x, dst', w')" by simp
    from unwind_read [OF this Suc.prems(2)] show ?thesis by simp
  next
    case Undefined
    with Suc.prems(1) rd call show ?thesis by simp
  qed
qed

lemma uninitialized_value_construct_loop_Returned:
  assumes "uninitialized_value_construct_loop T result cur n dst w = (Returned u, dst', w')"
  shows "(\<forall>k. (read_at dst' k = None) =
              (\<not> (cur \<le> k \<and> k < cur + n) \<and> read_at dst k = None)) \<and>
         (\<forall>k. k < cur \<or> cur + n \<le> k \<longrightarrow> read_at dst' k = read_at dst k) \<and>
         length (slots dst') = length (slots dst) \<and>
         (0 < n \<longrightarrow> cur + n \<le> length (slots dst))"
  using assms
proof (induction n arbitrary: cur dst w)
  case 0
  then show ?case by auto
next
  case (Suc n)
  from Suc.prems obtain y w1 dst1 where
    call: "call_value_construct T w = (Returned y, w1)" and
    wr: "write_at dst cur (Some y) = Some dst1" and
    rest: "uninitialized_value_construct_loop T result (Suc cur) n dst1 w1 = (Returned u, dst', w')"
    by (auto split: prod.splits outcome.splits option.splits simp: unwind_not_Returned)
  note a = read_at_write_at [OF wr]
  note b = Suc.IH [OF rest]
  have "(read_at dst' k = None) = (\<not> (cur \<le> k \<and> k < cur + Suc n) \<and> read_at dst k = None)" for k
    using a b by (cases "k = cur") auto
  moreover have "read_at dst' k = read_at dst k" if "k < cur \<or> cur + Suc n \<le> k" for k
    using that a b by auto
  moreover have "cur + Suc n \<le> length (slots dst)"
    using a b by (cases n) auto
  ultimately show ?case using a b by auto
qed

lemma uninitialized_value_construct_loop_Raised:
  assumes "uninitialized_value_construct_loop T result cur n dst w = (Raised x, dst', w')"
    and "result \<le> cur" and "\<forall>k. cur \<le> k \<and> k < cur + n \<longrightarrow> read_at dst k = None"
  shows "(\<forall>k. read_at dst' k = (if result \<le> k \<and> k < cur then None else read_at dst k)) \<and>
         length (slots dst') = length (slots dst)"
  using assms
proof (induction n arbitrary: cur dst w)
  case 0
  then show ?case by auto
next
  case (Suc n)
  obtain r1 w1 where call: "call_value_construct T w = (r1, w1)"
    by (cases "call_value_construct T w") auto
  show ?case
  proof (cases r1)
    case (Returned y)
    with Suc.prems(1) call obtain dst1 where
      wr: "write_at dst cur (Some y) = Some dst1" and
      rest: "uninitialized_value_construct_loop T result (Suc cur) n dst1 w1 = (Raised x, dst', w')"
      by (auto split: option.splits)
    note a = read_at_write_at [OF wr]
    have "\<forall>k. Suc cur \<le> k \<and> k < Suc cur + n \<longrightarrow> read_at dst1 k = None"
      using a Suc.prems(3) by auto
    with Suc.IH [OF rest] Suc.prems(2) have
      b: "\<forall>k. read_at dst' k = (if result \<le> k \<and> k < Suc cur then None else read_at dst1 k)"
        "length (slots dst') = length (slots dst1)"
      by auto
    have "read_at dst' k = (if result \<le> k \<and> k < cur then None else read_at dst k)" for k
    proof (cases "k = cur")
      case True
      with b Suc.prems(2,3) show ?thesis by auto
    next
      case False
      with b a show ?thesis by auto
    qed
    with b a show ?thesis by auto
  next
    case (Raised z)
    with Suc.prems(1) call have "unwind T z dst result cur w1 = (Raised x, dst', w')"
      by simp
    from unwind_read [OF this Suc.prems(2)] show ?thesis by simp
  next
    case Undefined
    with Suc.prems(1) call show ?thesis by simp
  qed
qed

lemma relocate_n_Returned:
  assumes "relocate_n T src first n dst result w = (Returned u, src', dst', w')" and "faithful_construction T"
  shows "(\<forall>k. read_at dst' k =
              (if result \<le> k \<and> k < result + n then read_at src (first + (k - result))
               else read_at dst k)) \<and>
         (\<forall>i<n. read_at src (first + i) \<noteq> None) \<and>
         (0 < n \<longrightarrow> result + n \<le> length (slots dst))"
proof (cases "is_nothrow_move_constructible T \<or> \<not> is_copy_constructible T")
  case True
  with assms(1) have "uninitialized_move_loop T src first n result result dst w =
      (Returned u, src', dst', w')"
    by (simp add: relocate_n_def uninitialized_move_n_def)
  from uninitialized_move_loop_Returned [OF this assms(2)] show ?thesis .
next
  case False
  with assms(1) have "uninitialized_copy_loop T src first n result result dst w =
      (Returned u, dst', w')"
    by (auto simp: relocate_n_def uninitialized_copy_n_def split: prod.splits)
  from uninitialized_copy_loop_Returned [OF this assms(2)] show ?thesis .
qed

lemma relocate_n_src:
  assumes "relocate_n T src first n dst result w = (r, src', dst', w')"
  shows "(\<forall>k. (read_at src' k = None) = (read_at src k = None)) \<and>
         (\<forall>k. k < first \<or> first + n \<le> k \<longrightarrow> read_at src' k = read_at src k) \<and>
         length (slots src') = length (slots src)"
proof (cases "is_nothrow_move_constructible T \<or> \<not> is_copy_constructible T")
  case True
  with assms(1) have "uninitialized_move_loop T src first n result result dst w =
      (r, src', dst', w')"
    by (simp add: relocate_n_def uninitialized_move_n_def)
  from uninitialized_move_loop_src [OF this] show ?thesis .
next
  case False
  with assms(1) have "src' = src"
    by (auto simp: relocate_n_def split: prod.splits)
  then show ?thesis by simp
qed

lemma relocate_n_Raised:
  assumes "relocate_n T src first n dst result w = (Raised x, src', dst', w')"
    and "\<forall>k. result \<le> k \<and> k < result + n \<longrightarrow> read_at dst k = None"
  shows "(\<forall>k. read_at dst' k = read_at dst k) \<and> length (slots dst') = length (slots dst)"
proof (cases "is_nothrow_move_constructible T \<or> \<not> is_copy_constructible T")
  case True
  with assms(1) have "uninitialized_move_loop T src first n result result dst w =
      (Raised x, src', dst', w')"
    by (simp add: relocate_n_def uninitialized_move_n_def)
  from uninitialized_move_loop_Raised [OF this le_refl assms(2)] show ?thesis by auto
next
  case False
  with assms(1) have "uninitialized_copy_loop T src first n result result dst w =
      (Raised x, dst', w')"
    by (auto simp: relocate_n_def uninitialized_copy_n_def split: prod.splits)
  from uninitialized_copy_loop_Raised [OF this le_refl assms(2)] show ?thesis by auto
qed

section \<open>The invariant, slot by slot\<close>

lemma valid_iff:
  "valid v \<longleftrightarrow>
     length (slots (m_data v)) = m_capacity (m_data v) \<and>
     m_size v \<le> m_capacity (m_data v) \<and>
     (\<forall>k. (read_at (m_data v) k \<noteq> None) = (k < m_size v))"
proof
  assume v: "valid v"
  then have len: "length (slots (m_data v)) = m_capacity (m_data v)"
    and le: "m_size v \<le> m_capacity (m_data v)"
    and lo: "\<And>i. i < m_size v \<Longrightarrow> slots (m_data v) ! i \<noteq> None"
    and hi: "\<And>i. i < m_capacity (m_data v) - m_size v \<Longrightarrow> slots (m_data v) ! (m_size v + i) = None"
    by (auto simp: valid_def list_all_length)
  have "(read_at (m_data v) k \<noteq> None) = (k < m_size v)" for k
  proof (cases "k < m_size v")
    case True
    with lo [of k] len le show ?thesis by (simp add: read_at_def)
  next
    case False
    show ?thesis
    proof (cases "k < m_capacity (m_data v)")
      case True
      with False hi [of "k - m_size v"] len show ?thesis by (simp add: read_at_def)
    next
      case False
      with len le show ?thesis by (simp add: read_at_def)
    qed
  qed
  with len le show "length (slots (m_data v)) = m_capacity (m_data v) \<and>
     m_size v \<le> m_capacity (m_data v) \<and> (\<forall>k. (read_at (m_data v) k \<noteq> None) = (k < m_size v))"
    by blast
next
  assume a: "length (slots (m_data v)) = m_capacity (m_data v) \<and>
     m_size v \<le> m_capacity (m_data v) \<and> (\<forall>k. (read_at (m_data v) k \<noteq> None) = (k < m_size v))"
  then have r: "\<And>k. (read_at (m_data v) k \<noteq> None) = (k < m_size v)" by blast
  have "slots (m_data v) ! i \<noteq> None" if "i < m_size v" for i
    using r [of i] that a by (simp add: read_at_def)
  moreover have "slots (m_data v) ! (m_size v + i) = None"
    if "i < m_capacity (m_data v) - m_size v" for i
  proof -
    from that have "m_size v + i < m_capacity (m_data v)" by arith
    with r [of "m_size v + i"] a show ?thesis by (simp add: read_at_def)
  qed
  ultimately show "valid v" using a by (auto simp: valid_def list_all_length)
qed

lemma elements_cong:
  assumes "m_size v' = m_size v"
    and "\<forall>k<m_size v. read_at (m_data v') k = read_at (m_data v) k"
    and "m_size v \<le> length (slots (m_data v))" and "m_size v \<le> length (slots (m_data v'))"
  shows "elements v' = elements v"
proof (rule nth_equalityI)
  show "length (elements v') = length (elements v)"
    using assms by (simp add: elements_def)
next
  fix i assume "i < length (elements v')"
  with assms have i: "i < m_size v" by (simp add: elements_def)
  with assms(2) have "read_at (m_data v') i = read_at (m_data v) i" by simp
  with i assms show "elements v' ! i = elements v ! i"
    by (simp add: elements_def read_at_def)
qed

section \<open>Reserve\<close>

lemma Reserve_noop:
  "new_capacity \<le> Capacity v \<Longrightarrow> Reserve T new_capacity v w = (Returned (), v, w)"
  by (simp add: Reserve_def Capacity_def)

lemma Reserve_Returned:
  assumes "Reserve T n v w = (Returned u, v', w')" and "Capacity v < n"
  obtains nd w1 old1 nd1 w2 old2 w3 where
    "RawMemory_sized T n w = (Returned nd, w1)"
    "(if m_size v > 0 then relocate_n T (m_data v) 0 (m_size v) nd 0 w1
      else (Returned (), m_data v, nd, w1)) = (Returned (), old1, nd1, w2)"
    "destroy_n T old1 0 (m_size v) w2 = (Returned (), old2, w3)"
    "v' = v\<lparr>m_data := nd1\<rparr>" "w' = RawMemory_dtor T old2 w3"
  using assms
  unfolding Reserve_def RawMemory_Swap_def Capacity_def
  by (simp split: prod.splits outcome.splits)

lemma Reserve_Raised:
  assumes "Reserve T n v w = (Raised x, v', w')"
  obtains (alloc) "v' = v"
  | (relocate) nd w1 old1 nd1 w2 where
      "RawMemory_sized T n w = (Returned nd, w1)" "0 < m_size v"
      "relocate_n T (m_data v) 0 (m_size v) nd 0 w1 = (Raised x, old1, nd1, w2)"
      "v' = v\<lparr>m_data := old1\<rparr>"
proof (cases "n \<le> Capacity v")
  case True
  with assms show ?thesis by (simp add: Reserve_noop)
next
  case False
  with assms that show ?thesis
    unfolding Reserve_def RawMemory_Swap_def Capacity_def
    by (simp split: prod.splits outcome.splits if_splits add: destroy_n_not_Raised)
qed

lemma Reserve_grow_result:
  assumes "Reserve T n v w = (Returned u, v', w')" and "Capacity v < n"
    and "valid v" and "faithful_construction T"
  shows "Capacity v' = n \<and> m_size v' = m_size v \<and> elements v' = elements v"
  using assms(1,2)
proof (cases rule: Reserve_Returned)
  case (1 nd w1 old1 nd1 w2 old2 w3)
  from RawMemory_sized_Returned [OF 1(1)]
  have nd: "m_capacity nd = n" "slots nd = replicate (block_slots T n) None"
    by auto
  then have rnd: "\<And>k. read_at nd k = None" by (simp add: read_at_def)
  from assms(3) have len: "length (slots (m_data v)) = m_capacity (m_data v)"
    and le: "m_size v \<le> m_capacity (m_data v)"
    by (auto simp: valid_iff)
  have reloc: "(\<forall>k. read_at nd1 k = (if k < m_size v then read_at (m_data v) k else None)) \<and>
               same_block nd nd1 \<and> m_size v \<le> length (slots nd)"
  proof (cases "0 < m_size v")
    case True
    with 1(2) have r: "relocate_n T (m_data v) 0 (m_size v) nd 0 w1 = (Returned (), old1, nd1, w2)"
      by simp
    from relocate_n_Returned [OF r assms(4)] relocate_n_block [OF r] rnd True show ?thesis by simp
  next
    case False
    with 1(2) rnd show ?thesis by simp
  qed
  then have blk: "m_capacity nd1 = n" "m_size v \<le> length (slots nd1)"
    using nd by (simp_all add: same_block_def)
  from reloc have rd: "\<And>k. read_at nd1 k = (if k < m_size v then read_at (m_data v) k else None)"
    by blast
  have cap: "Capacity v' = n" using 1(4) blk by (simp add: Capacity_def RawMemory_Capacity_def)
  have sz: "m_size v' = m_size v" using 1(4) by simp
  have el: "elements v' = elements v"
    by (rule elements_cong) (use 1(4) rd len le blk in simp_all)
  with cap sz show ?thesis by simp
qed

lemma Reserve_Raised_unchanged:
  assumes "Reserve T n v w = (Raised x, v', w')"
    and "is_copy_constructible T \<or> is_nothrow_move_constructible T"
  shows "v' = v"
  using assms(1)
proof (cases rule: Reserve_Raised)
  case alloc
  then show ?thesis .
next
  case (relocate nd w1 old1 nd1 w2)
  from relocate_n_Raised_src [OF relocate(3) assms(2)] relocate(4) show ?thesis by simp
qed

lemma valid_same_shape:
  assumes "valid v" and "\<forall>k. (read_at d k = None) = (read_at (m_data v) k = None)"
    and "length (slots d) = length (slots (m_data v))" and "m_capacity d = m_capacity (m_data v)"
  shows "valid (v\<lparr>m_data := d\<rparr>)"
  using assms unfolding valid_iff by simp

lemma Reserve_Raised_basic:
  assumes "Reserve T n v w = (Raised x, v', w')" and "valid v"
  shows "valid v' \<and> m_size v' = m_size v \<and> Capacity v' = Capacity v \<and>
         Vector_begin v' = Vector_begin v"
  using assms(1)
proof (cases rule: Reserve_Raised)
  case alloc
  with assms(2) show ?thesis by simp
next
  case (relocate nd w1 old1 nd1 w2)
  from relocate_n_src [OF relocate(3)] relocate_n_block [OF relocate(3)]
  have "\<forall>k. (read_at old1 k = None) = (read_at (m_data v) k = None)"
    "length (slots old1) = length (slots (m_data v))" "m_capacity old1 = m_capacity (m_data v)"
    "m_buffer old1 = m_buffer (m_data v)"
    by (simp_all add: same_block_def)
  with valid_same_shape [OF assms(2), of old1] relocate(4) show ?thesis
    by (simp add: Capacity_def RawMemory_Capacity_def Vector_begin_def GetAddress_def)
qed

lemma uninitialized_copy_loop_Returned_occ:
  assumes "uninitialized_copy_loop T src first n result cur dst w = (Returned u, dst', w')"
  shows "(\<forall>k. (read_at dst' k = None) =
              (\<not> (cur \<le> k \<and> k < cur + n) \<and> read_at dst k = None)) \<and>
         (\<forall>k. k < cur \<or> cur + n \<le> k \<longrightarrow> read_at dst' k = read_at dst k) \<and>
         length (slots dst') = length (slots dst) \<and>
         (0 < n \<longrightarrow> cur + n \<le> length (slots dst))"
  using assms
proof (induction n arbitrary: first cur dst w)
  case 0
  then show ?case by auto
next
  case (Suc n)
  from Suc.prems obtain x y w1 dst1 where
    wr: "write_at dst cur (Some y) = Some dst1" and
    rest: "uninitialized_copy_loop T src (Suc first) n result (Suc cur) dst1 w1 = (Returned u, dst', w')"
    by (auto split: prod.splits outcome.splits option.splits simp: unwind_not_Returned)
  note a = read_at_write_at [OF wr]
  note b = Suc.IH [OF rest]
  have "(read_at dst' k = None) = (\<not> (cur \<le> k \<and> k < cur + Suc n) \<and> read_at dst k = None)" for k
    using a b by (cases "k = cur") auto
  moreover have "read_at dst' k = read_at dst k" if "k < cur \<or> cur + Suc n \<le> k" for k
    using that a b by auto
  moreover have "cur + Suc n \<le> length (slots dst)"
    using a b by (cases n) auto
  ultimately show ?case using a b by auto
qed

lemma uninitialized_move_loop_Returned_occ:
  assumes "uninitialized_move_loop T src first n result cur dst w = (Returned u, src', dst', w')"
  shows "(\<forall>k. (read_at dst' k = None) =
              (\<not> (cur \<le> k \<and> k < cur + n) \<and> read_at dst k = None)) \<and>
         (\<forall>k. k < cur \<or> cur + n \<le> k \<longrightarrow> read_at dst' k = read_at dst k) \<and>
         length (slots dst') = length (slots dst) \<and>
         (0 < n \<longrightarrow> cur + n \<le> length (slots dst))"
  using assms
proof (induction n arbitrary: src first cur dst w)
  case 0
  then show ?case by auto
next
  case (Suc n)
  from Suc.prems obtain y w1 src1 dst1 where
    wr: "write_at dst cur (Some y) = Some dst1" and
    rest: "uninitialized_move_loop T src1 (Suc first) n result (Suc cur) dst1 w1 =
             (Returned u, src', dst', w')"
    by (auto split: prod.splits outcome.splits option.splits simp: unwind_not_Returned)
  note a = read_at_write_at [OF wr]
  note b = Suc.IH [OF rest]
  have "(read_at dst' k = None) = (\<not> (cur \<le> k \<and> k < cur + Suc n) \<and> read_at dst k = None)" for k
    using a b by (cases "k = cur") auto
  moreover have "read_at dst' k = read_at dst k" if "k < cur \<or> cur + Suc n \<le> k" for k
    using that a b by auto
  moreover have "cur + Suc n \<le> length (slots dst)"
    using a b by (cases n) auto
  ultimately show ?case using a b by auto
qed

lemma relocate_n_Returned_occ:
  assumes "relocate_n T src first n dst result w = (Returned u, src', dst', w')"
  shows "(\<forall>k. (read_at dst' k = None) =
              (\<not> (result \<le> k \<and> k < result + n) \<and> read_at dst k = None)) \<and>
         (\<forall>k. k < result \<or> result + n \<le> k \<longrightarrow> read_at dst' k = read_at dst k) \<and>
         length (slots dst') = length (slots dst) \<and>
         (0 < n \<longrightarrow> result + n \<le> length (slots dst))"
proof (cases "is_nothrow_move_constructible T \<or> \<not> is_copy_constructible T")
  case True
  with assms(1) have "uninitialized_move_loop T src first n result result dst w =
      (Returned u, src', dst', w')"
    by (simp add: relocate_n_def uninitialized_move_n_def)
  from uninitialized_move_loop_Returned_occ [OF this] show ?thesis .
next
  case False
  with assms(1) have "uninitialized_copy_loop T src first n result result dst w =
      (Returned u, dst', w')"
    by (auto simp: relocate_n_def uninitialized_copy_n_def split: prod.splits)
  from uninitialized_copy_loop_Returned_occ [OF this] show ?thesis .
qed

lemma Reserve_grow_size:
  assumes "Reserve T n v w = (Returned u, v', w')" and "Capacity v < n" and "valid v"
    and "fits_size_t T n"
  shows "Capacity v' = n \<and> m_size v' = m_size v \<and> valid v'"
  using assms(1,2)
proof (cases rule: Reserve_Returned)
  case (1 nd w1 old1 nd1 w2 old2 w3)
  from RawMemory_sized_Returned [OF 1(1)] block_slots_fits [OF assms(4)]
  have nd: "m_capacity nd = n" "slots nd = replicate n None"
    by auto
  then have rnd: "\<And>k. read_at nd k = None" by (simp add: read_at_def)
  from assms(3) have le: "m_size v \<le> m_capacity (m_data v)"
    by (auto simp: valid_iff)
  have reloc: "(\<forall>k. (read_at nd1 k = None) = (\<not> k < m_size v)) \<and> same_block nd nd1"
  proof (cases "0 < m_size v")
    case True
    with 1(2) have r: "relocate_n T (m_data v) 0 (m_size v) nd 0 w1 = (Returned (), old1, nd1, w2)"
      by simp
    from relocate_n_Returned_occ [OF r] relocate_n_block [OF r] rnd show ?thesis by simp
  next
    case False
    with 1(2) rnd show ?thesis by simp
  qed
  then have blk: "m_capacity nd1 = n" "length (slots nd1) = n"
    using nd by (simp_all add: same_block_def)
  from assms(2) le have szn: "m_size v \<le> n" by (simp add: Capacity_def RawMemory_Capacity_def)
  have "valid v'"
    unfolding valid_iff using 1(4) blk szn reloc by simp
  with 1(4) blk show ?thesis by (simp add: Capacity_def RawMemory_Capacity_def)
qed

section \<open>The calls in the trace\<close>

lemma calls_append [simp]: "calls k (xs @ ys) = calls k xs + calls k ys"
  by (simp add: calls_def)

lemma calls_single [simp]: "calls k [ev] = (if kind_of ev = k then 1 else 0)"
  by (simp add: calls_def)

lemma call_copy_construct_calls:
  "call_copy_construct T x w = (r, w') \<Longrightarrow>
     calls k (trace w') = calls k (trace w) + (if k = KCopyConstruct then 1 else 0)"
  by (auto simp: call_copy_construct_def split: prod.splits)

lemma call_move_construct_calls:
  "call_move_construct T x w = (r, w') \<Longrightarrow>
     calls k (trace w') = calls k (trace w) + (if k = KMoveConstruct then 1 else 0)"
  by (auto simp: call_move_construct_def split: prod.splits)

lemma call_value_construct_calls:
  "call_value_construct T w = (r, w') \<Longrightarrow>
     calls k (trace w') = calls k (trace w) + (if k = KValueConstruct then 1 else 0)"
  by (auto simp: call_value_construct_def split: prod.splits)

lemma call_copy_assign_calls:
  "call_copy_assign T d s w = (r, w') \<Longrightarrow>
     calls k (trace w') = calls k (trace w) + (if k = KCopyAssign then 1 else 0)"
  by (auto simp: call_copy_assign_def split: prod.splits)

lemma call_move_assign_calls:
  "call_move_assign T d s w = (r, w') \<Longrightarrow>
     calls k (trace w') = calls k (trace w) + (if k = KMoveAssign then 1 else 0)"
  by (auto simp: call_move_assign_def split: prod.splits)

lemma call_construct_calls:
  "call_construct args w = (r, w') \<Longrightarrow>
     calls k (trace w') = calls k (trace w) + (if k = KConstruct then 1 else 0)"
  by (auto simp: call_construct_def split: prod.splits)

lemma call_destroy_calls [simp]:
  "calls k (trace (call_destroy T x w)) = calls k (trace w) + (if k = KDestroy then 1 else 0)"
  by (simp add: call_destroy_def)

lemma RawMemory_dtor_calls [simp]:
  "calls k (trace (RawMemory_dtor T m w)) = calls k (trace w) + (if k = KDelete then 1 else 0)"
  by (simp add: RawMemory_dtor_def Deallocate_def call_operator_delete_def)

lemma RawMemory_sized_calls:
  "RawMemory_sized T n w = (r, w') \<Longrightarrow> k \<noteq> KNew \<Longrightarrow> calls k (trace w') = calls k (trace w)"
  by (auto simp: RawMemory_sized_def Allocate_def call_operator_new_def
           split: prod.splits outcome.splits if_splits)

lemma placement_new_calls:
  "placement_new args m i w = (r, m', w') \<Longrightarrow> k \<noteq> KConstruct \<Longrightarrow>
     calls k (trace w') = calls k (trace w)"
  by (auto simp: placement_new_def split: prod.splits outcome.splits option.splits
           dest!: call_construct_calls [where k = k])

lemma destroy_at_calls:
  "destroy_at T m i w = (r, m', w') \<Longrightarrow>
     calls k (trace w') = calls k (trace w) + (if k = KDestroy \<and> r = Returned () then 1 else 0)"
  by (auto simp: destroy_at_def split: option.splits)

lemma destroy_n_calls:
  "destroy_n T m first n w = (r, m', w') \<Longrightarrow> k \<noteq> KDestroy \<Longrightarrow>
     calls k (trace w') = calls k (trace w)"
proof (induction n arbitrary: m first w)
  case 0
  then show ?case by simp
next
  case (Suc n)
  then show ?case
    by (auto split: prod.splits outcome.splits dest!: destroy_at_calls [where k = k])
qed

lemma destroy_n_calls_Returned:
  "destroy_n T m first n w = (Returned u, m', w') \<Longrightarrow>
     calls KDestroy (trace w') = calls KDestroy (trace w) + n"
proof (induction n arbitrary: m first w)
  case 0
  then show ?case by simp
next
  case (Suc n)
  then show ?case
    by (auto split: prod.splits outcome.splits dest!: destroy_at_calls [where k = KDestroy])
qed

lemma unwind_calls:
  "unwind T x dst result cur w = (r, m', w') \<Longrightarrow> k \<noteq> KDestroy \<Longrightarrow>
     calls k (trace w') = calls k (trace w)"
  by (auto simp: unwind_def split: prod.splits outcome.splits dest!: destroy_n_calls [where k = k])

lemma uninitialized_copy_loop_calls:
  "uninitialized_copy_loop T src first n result cur dst w = (r, dst', w') \<Longrightarrow>
     k \<noteq> KDestroy \<Longrightarrow> k \<noteq> KCopyConstruct \<Longrightarrow> calls k (trace w') = calls k (trace w)"
proof (induction n arbitrary: first cur dst w)
  case 0
  then show ?case by simp
next
  case (Suc n)
  then show ?case
    by (auto split: prod.splits outcome.splits option.splits
             dest!: call_copy_construct_calls [where k = k] unwind_calls [where k = k])
qed

lemma uninitialized_copy_loop_calls_Returned:
  "uninitialized_copy_loop T src first n result cur dst w = (Returned u, dst', w') \<Longrightarrow>
     calls KCopyConstruct (trace w') = calls KCopyConstruct (trace w) + n"
proof (induction n arbitrary: first cur dst w)
  case 0
  then show ?case by simp
next
  case (Suc n)
  then show ?case
    by (auto split: prod.splits outcome.splits option.splits simp: unwind_not_Returned
             dest!: call_copy_construct_calls [where k = KCopyConstruct])
qed

lemma uninitialized_move_loop_calls:
  "uninitialized_move_loop T src first n result cur dst w = (r, src', dst', w') \<Longrightarrow>
     k \<noteq> KDestroy \<Longrightarrow> k \<noteq> KMoveConstruct \<Longrightarrow> calls k (trace w') = calls k (trace w)"
proof (induction n arbitrary: src first cur dst w)
  case 0
  then show ?case by simp
next
  case (Suc n)
  then show ?case
    by (auto split: prod.splits outcome.splits option.splits
             dest!: call_move_construct_calls [where k = k] unwind_calls [where k = k])
qed

lemma uninitialized_move_loop_calls_Returned:
  "uninitialized_move_loop T src first n result cur dst w = (Returned u, src', dst', w') \<Longrightarrow>
     calls KMoveConstruct (trace w') = calls KMoveConstruct (trace w) + n"
proof (induction n arbitrary: src first cur dst w)
  case 0
  then show ?case by simp
next
  case (Suc n)
  then show ?case
    by (auto split: prod.splits outcome.splits option.splits simp: unwind_not_Returned
             dest!: call_move_construct_calls [where k = KMoveConstruct])
qed

text \<open>Relocation by move makes no copy, relocation by copy makes no move.\<close>

lemma relocate_n_by_move:
  assumes "relocate_n T src first n dst result w = (r, src', dst', w')"
    and "is_nothrow_move_constructible T \<or> \<not> is_copy_constructible T"
  shows "calls KCopyConstruct (trace w') = calls KCopyConstruct (trace w) \<and>
         (r = Returned () \<longrightarrow> calls KMoveConstruct (trace w') = calls KMoveConstruct (trace w) + n)"
  using assms
  by (auto simp: relocate_n_def uninitialized_move_n_def
           dest: uninitialized_move_loop_calls [where k = KCopyConstruct]
                 uninitialized_move_loop_calls_Returned)

lemma relocate_n_by_copy:
  assumes "relocate_n T src first n dst result w = (r, src', dst', w')"
    and "\<not> (is_nothrow_move_constructible T \<or> \<not> is_copy_constructible T)"
  shows "calls KMoveConstruct (trace w') = calls KMoveConstruct (trace w) \<and>
         (r = Returned () \<longrightarrow> calls KCopyConstruct (trace w') = calls KCopyConstruct (trace w) + n) \<and>
         src' = src"
  using assms
  by (auto simp: relocate_n_def uninitialized_copy_n_def split: prod.splits
           dest: uninitialized_copy_loop_calls [where k = KMoveConstruct]
                 uninitialized_copy_loop_calls_Returned)

lemma RawMemory_sized_relocs:
  "RawMemory_sized T n w = (r, w') \<Longrightarrow>
     calls KCopyConstruct (trace w') = calls KCopyConstruct (trace w) \<and>
     calls KMoveConstruct (trace w') = calls KMoveConstruct (trace w)"
  by (simp add: RawMemory_sized_calls)

lemma placement_new_relocs:
  "placement_new args m i w = (r, m', w') \<Longrightarrow>
     calls KCopyConstruct (trace w') = calls KCopyConstruct (trace w) \<and>
     calls KMoveConstruct (trace w') = calls KMoveConstruct (trace w)"
  by (simp add: placement_new_calls)

lemma destroy_n_relocs:
  "destroy_n T m first n w = (r, m', w') \<Longrightarrow>
     calls KCopyConstruct (trace w') = calls KCopyConstruct (trace w) \<and>
     calls KMoveConstruct (trace w') = calls KMoveConstruct (trace w)"
  by (simp add: destroy_n_calls)

lemma destroy_at_relocs:
  "destroy_at T m i w = (r, m', w') \<Longrightarrow>
     calls KCopyConstruct (trace w') = calls KCopyConstruct (trace w) \<and>
     calls KMoveConstruct (trace w') = calls KMoveConstruct (trace w)"
  by (simp add: destroy_at_calls)

lemmas quiet_relocs = RawMemory_sized_relocs placement_new_relocs destroy_n_relocs destroy_at_relocs

lemma EmplaceBack_grow_by_move:
  assumes "EmplaceBack T args v w = (r, v', w')" and "m_size v = Capacity v"
    and "r \<noteq> Undefined"
    and c: "is_nothrow_move_constructible T \<or> \<not> is_copy_constructible T"
  shows "calls KCopyConstruct (trace w') = calls KCopyConstruct (trace w) \<and>
         ((\<exists>p. r = Returned p) \<longrightarrow>
            calls KMoveConstruct (trace w') = calls KMoveConstruct (trace w) + m_size v)"
proof (cases r)
  case (Returned p)
  with assms(1,2) show ?thesis
    unfolding EmplaceBack_def RawMemory_Swap_def Let_def
    by (simp split: prod.splits outcome.splits option.splits;
        auto dest!: quiet_relocs relocate_n_by_move [OF _ c])
next
  case (Raised x)
  with assms(1,2) show ?thesis
    unfolding EmplaceBack_def RawMemory_Swap_def Let_def
    by (simp split: prod.splits outcome.splits option.splits;
        auto dest!: quiet_relocs relocate_n_by_move [OF _ c])
next
  case Undefined
  with assms(3) show ?thesis by simp
qed

lemma EmplaceBack_grow_by_copy:
  assumes "EmplaceBack T args v w = (r, v', w')" and "m_size v = Capacity v"
    and "r \<noteq> Undefined"
    and c: "\<not> (is_nothrow_move_constructible T \<or> \<not> is_copy_constructible T)"
  shows "calls KMoveConstruct (trace w') = calls KMoveConstruct (trace w) \<and>
         ((\<exists>p. r = Returned p) \<longrightarrow>
            calls KCopyConstruct (trace w') = calls KCopyConstruct (trace w) + m_size v)"
proof (cases r)
  case (Returned p)
  with assms(1,2) show ?thesis
    unfolding EmplaceBack_def RawMemory_Swap_def Let_def
    by (simp split: prod.splits outcome.splits option.splits;
        auto dest!: quiet_relocs relocate_n_by_copy [OF _ c])
next
  case (Raised x)
  with assms(1,2) show ?thesis
    unfolding EmplaceBack_def RawMemory_Swap_def Let_def
    by (simp split: prod.splits outcome.splits option.splits;
        auto dest!: quiet_relocs relocate_n_by_copy [OF _ c])
next
  case Undefined
  with assms(3) show ?thesis by simp
qed

lemma Emplace_reallocate_by_move:
  assumes "Emplace_reallocate T offset args v w = (r, v', w')" and "offset \<le> m_size v"
    and "r \<noteq> Undefined"
    and c: "is_nothrow_move_constructible T \<or> \<not> is_copy_constructible T"
  shows "calls KCopyConstruct (trace w') = calls KCopyConstruct (trace w) \<and>
         ((\<exists>p. r = Returned p) \<longrightarrow>
            calls KMoveConstruct (trace w') = calls KMoveConstruct (trace w) + m_size v)"
proof (cases r)
  case (Returned p)
  with assms(1,2) show ?thesis
    unfolding Emplace_reallocate_def RawMemory_Swap_def Let_def
    by (simp split: prod.splits outcome.splits option.splits;
        auto split: if_splits dest!: quiet_relocs relocate_n_by_move [OF _ c])
next
  case (Raised x)
  with assms(1,2) show ?thesis
    unfolding Emplace_reallocate_def RawMemory_Swap_def Let_def
    by (simp split: prod.splits outcome.splits option.splits;
        auto split: if_splits dest!: quiet_relocs relocate_n_by_move [OF _ c])
next
  case Undefined
  with assms(3) show ?thesis by simp
qed

lemma Emplace_reallocate_by_copy:
  assumes "Emplace_reallocate T offset args v w = (r, v', w')" and "offset \<le> m_size v"
    and "r \<noteq> Undefined"
    and c: "\<not> (is_nothrow_move_constructible T \<or> \<not> is_copy_constructible T)"
  shows "calls KMoveConstruct (trace w') = calls KMoveConstruct (trace w) \<and>
         ((\<exists>p. r = Returned p) \<longrightarrow>
            calls KCopyConstruct (trace w') = calls KCopyConstruct (trace w) + m_size v)"
proof (cases r)
  case (Returned p)
  with assms(1,2) show ?thesis
    unfolding Emplace_reallocate_def RawMemory_Swap_def Let_def
    by (simp split: prod.splits outcome.splits option.splits;
        auto split: if_splits dest!: quiet_relocs relocate_n_by_copy [OF _ c])
next
  case (Raised x)
  with assms(1,2) show ?thesis
    unfolding Emplace_reallocate_def RawMemory_Swap_def Let_def
    by (simp split: prod.splits outcome.splits option.splits;
        auto split: if_splits dest!: quiet_relocs relocate_n_by_copy [OF _ c])
next
  case Undefined
  with assms(3) show ?thesis by simp
qed

lemma Reserve_grow_by_move:
  assumes "Reserve T n v w = (r, v', w')" and "Capacity v < n" and "r \<noteq> Undefined"
    and c: "is_nothrow_move_constructible T \<or> \<not> is_copy_constructible T"
  shows "calls KCopyConstruct (trace w') = calls KCopyConstruct (trace w) \<and>
         (r = Returned () \<longrightarrow>
            calls KMoveConstruct (trace w') = calls KMoveConstruct (trace w) + m_size v)"
proof (cases r)
  case (Returned p)
  with assms(1,2) show ?thesis
    unfolding Reserve_def RawMemory_Swap_def Capacity_def
    by (simp split: prod.splits outcome.splits;
        auto split: if_splits dest!: quiet_relocs relocate_n_by_move [OF _ c])
next
  case (Raised x)
  with assms(1,2) show ?thesis
    unfolding Reserve_def RawMemory_Swap_def Capacity_def
    by (simp split: prod.splits outcome.splits;
        auto split: if_splits dest!: quiet_relocs relocate_n_by_move [OF _ c])
next
  case Undefined
  with assms(3) show ?thesis by simp
qed

lemma Reserve_grow_by_copy:
  assumes "Reserve T n v w = (r, v', w')" and "Capacity v < n" and "r \<noteq> Undefined"
    and c: "\<not> (is_nothrow_move_constructible T \<or> \<not> is_copy_constructible T)"
  shows "calls KMoveConstruct (trace w') = calls KMoveConstruct (trace w) \<and>
         (r = Returned () \<longrightarrow>
            calls KCopyConstruct (trace w') = calls KCopyConstruct (trace w) + m_size v)"
proof (cases r)
  case (Returned p)
  with assms(1,2) show ?thesis
    unfolding Reserve_def RawMemory_Swap_def Capacity_def
    by (simp split: prod.splits outcome.splits;
        auto split: if_splits dest!: quiet_relocs relocate_n_by_copy [OF _ c])
next
  case (Raised x)
  with assms(1,2) show ?thesis
    unfolding Reserve_def RawMemory_Swap_def Capacity_def
    by (simp split: prod.splits outcome.splits;
        auto split: if_splits dest!: quiet_relocs relocate_n_by_copy [OF _ c])
next
  case Undefined
  with assms(3) show ?thesis by simp
qed

lemma returned_iff: "returned r \<longleftrightarrow> (\<exists>p. r = Returned p)"
  by (cases r) simp_all

lemma raised_iff: "raised r \<longleftrightarrow> (\<exists>x. r = Raised x)"
  by (cases r) simp_all

lemma EmplaceBack_grow_relocated:
  assumes "EmplaceBack T args v w = (r, v', w')" and "m_size v = Capacity v"
    and "r \<noteq> Undefined"
  shows "relocated_by_rule T v w r v' w'"
proof (cases "is_nothrow_move_constructible T \<or> \<not> is_copy_constructible T")
  case True
  from EmplaceBack_grow_by_move [OF assms True] True show ?thesis
    by (simp add: relocated_by_rule_def returned_iff)
next
  case False
  have "v' = v" if "raised r"
  proof -
    from that obtain x where "r = Raised x" by (auto simp: raised_iff)
    with assms(1) have "EmplaceBack T args v w = (Raised x, v', w')" by simp
    from this assms(2) show ?thesis
      by (rule EmplaceBack_grow_Raised_unchanged) (use False in simp)
  qed
  with EmplaceBack_grow_by_copy [OF assms False] False show ?thesis
    by (simp add: relocated_by_rule_def returned_iff)
qed

lemma Emplace_reallocate_relocated:
  assumes "Emplace_reallocate T offset args v w = (r, v', w')" and "offset \<le> m_size v"
    and "r \<noteq> Undefined"
  shows "relocated_by_rule T v w r v' w'"
proof (cases "is_nothrow_move_constructible T \<or> \<not> is_copy_constructible T")
  case True
  from Emplace_reallocate_by_move [OF assms True] True show ?thesis
    by (simp add: relocated_by_rule_def returned_iff)
next
  case False
  have "v' = v" if "raised r"
  proof -
    from that obtain x where "r = Raised x" by (auto simp: raised_iff)
    with assms(1) have "Emplace_reallocate T offset args v w = (Raised x, v', w')" by simp
    then show ?thesis
      by (rule Emplace_reallocate_Raised_unchanged) (use False in simp)
  qed
  with Emplace_reallocate_by_copy [OF assms False] False show ?thesis
    by (simp add: relocated_by_rule_def returned_iff)
qed

lemma Emplace_grow_relocated:
  assumes "Emplace T pos args v w = (r, v', w')" and "m_size v = Capacity v"
    and "r \<noteq> Undefined"
  shows "relocated_by_rule T v w r v' w'"
  using assms(1)
proof (cases rule: Emplace_cases)
  case out_of_range
  with assms(3) show ?thesis by simp
next
  case reallocate
  from reallocate(1,2) have "pos - Vector_begin v \<le> m_size v"
    by (simp add: Vector_begin_def Vector_end_def)
  with reallocate(4) show ?thesis using assms(3) by (rule Emplace_reallocate_relocated)
next
  case (tail q)
  with assms(2) show ?thesis by simp
next
  case middle
  with assms(2) show ?thesis by simp
qed

lemma Reserve_grow_relocated:
  assumes "Reserve T n v w = (r, v', w')" and "Capacity v < n" and "r \<noteq> Undefined"
  shows "relocated_by_rule T v w r v' w'"
proof (cases "is_nothrow_move_constructible T \<or> \<not> is_copy_constructible T")
  case True
  from Reserve_grow_by_move [OF assms True] True show ?thesis
    by (cases r) (simp_all add: relocated_by_rule_def)
next
  case False
  have "v' = v" if "raised r"
  proof -
    from that obtain x where "r = Raised x" by (auto simp: raised_iff)
    with assms(1) have "Reserve T n v w = (Raised x, v', w')" by simp
    then show ?thesis
      by (rule Reserve_Raised_unchanged) (use False in simp)
  qed
  with Reserve_grow_by_copy [OF assms False] False show ?thesis
    by (cases r) (simp_all add: relocated_by_rule_def)
qed

section \<open>Objects built and destroyed, buffers allocated and released\<close>

lemma value_constructed_append [simp]:
  "value_constructed (xs @ ys) = value_constructed xs @ value_constructed ys"
  by (simp add: value_constructed_def)

lemma destroyed_append [simp]: "destroyed (xs @ ys) = destroyed xs @ destroyed ys"
  by (simp add: destroyed_def)

lemma allocated_append [simp]: "allocated (xs @ ys) = allocated xs @ allocated ys"
  by (simp add: allocated_def)

lemma released_append [simp]: "released (xs @ ys) = released xs @ released ys"
  by (simp add: released_def)

lemma projections_single [simp]:
  "value_constructed [ev] = value_constructed_by ev" "destroyed [ev] = destroyed_by ev"
  "allocated [ev] = allocated_by ev" "released [ev] = released_by ev"
  by (simp_all add: value_constructed_def destroyed_def allocated_def released_def)

text \<open>Two worlds between which nothing was allocated or released.\<close>

lemma call_value_construct_Returned:
  assumes "call_value_construct T w = (Returned y, w')"
  shows "value_constructed (trace w') = value_constructed (trace w) @ [y] \<and>
         destroyed (trace w') = destroyed (trace w) \<and>
         allocated (trace w') = allocated (trace w) \<and> released (trace w') = released (trace w)"
  using assms
  by (auto simp: call_value_construct_def of_sum_def split: prod.splits sum.splits)

lemma call_value_construct_Raised:
  assumes "call_value_construct T w = (Raised x, w')"
  shows "value_constructed (trace w') = value_constructed (trace w) \<and>
         destroyed (trace w') = destroyed (trace w) \<and>
         allocated (trace w') = allocated (trace w) \<and> released (trace w') = released (trace w)"
  using assms
  by (auto simp: call_value_construct_def of_sum_def split: prod.splits sum.splits)

lemma call_destroy_projections [simp]:
  "value_constructed (trace (call_destroy T x w)) = value_constructed (trace w)"
  "destroyed (trace (call_destroy T x w)) = destroyed (trace w) @ [x]"
  "allocated (trace (call_destroy T x w)) = allocated (trace w)"
  "released (trace (call_destroy T x w)) = released (trace w)"
  by (simp_all add: call_destroy_def)

lemma RawMemory_dtor_projections [simp]:
  "value_constructed (trace (RawMemory_dtor T m w)) = value_constructed (trace w)"
  "destroyed (trace (RawMemory_dtor T m w)) = destroyed (trace w)"
  "allocated (trace (RawMemory_dtor T m w)) = allocated (trace w)"
  "released (trace (RawMemory_dtor T m w)) = released (trace w) @ [m_buffer m]"
  by (simp_all add: RawMemory_dtor_def Deallocate_def call_operator_delete_def)

lemma RawMemory_sized_projections:
  assumes "RawMemory_sized T n w = (r, w')"
  shows "value_constructed (trace w') = value_constructed (trace w) \<and>
         destroyed (trace w') = destroyed (trace w) \<and>
         released (trace w') = released (trace w) \<and>
         allocated (trace w') =
           allocated (trace w) @ (case r of Returned m \<Rightarrow> if n \<noteq> 0 then [m_buffer m] else [] | _ \<Rightarrow> [])"
  using assms
  by (auto simp: RawMemory_sized_def Allocate_def call_operator_new_def of_sum_def
           split: prod.splits outcome.splits if_splits sum.splits)

lemma destroy_n_destroyed:
  assumes "destroy_n T m first n w = (Returned u, m', w')" and "length zs = n"
    and "\<forall>i<n. read_at m (first + i) = Some (zs ! i)"
  shows "destroyed (trace w') = destroyed (trace w) @ zs \<and>
         value_constructed (trace w') = value_constructed (trace w) \<and>
         allocated (trace w') = allocated (trace w) \<and> released (trace w') = released (trace w)"
  using assms
proof (induction n arbitrary: m first w zs)
  case 0
  then show ?case by simp
next
  case (Suc n)
  from Suc.prems(2) obtain z zs' where zs: "zs = z # zs'" "length zs' = n"
    by (cases zs) auto
  from Suc.prems(1) obtain m1 w1 where
    step: "destroy_at T m first w = (Returned (), m1, w1)" and
    rest: "destroy_n T m1 (Suc first) n w1 = (Returned u, m', w')"
    by (auto split: prod.splits outcome.splits)
  from Suc.prems(3) [rule_format, of 0] zs have z: "read_at m first = Some z" by simp
  from destroy_at_Returned [OF step] z have w1: "w1 = call_destroy T z w"
    by (auto simp: read_at_def split: if_splits)
  from destroy_at_read [OF step] have m1: "\<forall>k. read_at m1 k = (if k = first then None else read_at m k)"
    by simp
  have "\<forall>i<n. read_at m1 (Suc first + i) = Some (zs' ! i)"
  proof (intro allI impI)
    fix i assume "i < n"
    with Suc.prems(3) [rule_format, of "Suc i"] zs m1 show "read_at m1 (Suc first + i) = Some (zs' ! i)"
      by simp
  qed
  from Suc.IH [OF rest zs(2) this] w1 zs show ?case by simp
qed

lemma unwind_destroyed:
  assumes "unwind T x dst result cur w = (Raised y, dst', w')" and "result \<le> cur"
    and "length zs = cur - result" and "\<forall>i<cur - result. read_at dst (result + i) = Some (zs ! i)"
  shows "destroyed (trace w') = destroyed (trace w) @ zs \<and>
         value_constructed (trace w') = value_constructed (trace w) \<and>
         allocated (trace w') = allocated (trace w) \<and> released (trace w') = released (trace w)"
proof -
  from assms(1) obtain u where
    "destroy_n T dst result (cur - result) w = (Returned u, dst', w')"
    by (auto simp: unwind_def split: prod.splits outcome.splits)
  from destroy_n_destroyed [OF this assms(3,4)] show ?thesis .
qed

lemma uninitialized_value_construct_loop_built:
  assumes "uninitialized_value_construct_loop T result cur n dst w = (Returned u, dst', w')"
  shows "\<exists>ys. length ys = n \<and> (\<forall>i<n. read_at dst' (cur + i) = Some (ys ! i)) \<and>
           (\<forall>y\<in>set ys. \<exists>e e'. value_construct T e = (Inr y, e')) \<and>
           value_constructed (trace w') = value_constructed (trace w) @ ys \<and>
           destroyed (trace w') = destroyed (trace w) \<and>
           allocated (trace w') = allocated (trace w) \<and> released (trace w') = released (trace w)"
  using assms
proof (induction n arbitrary: cur dst w)
  case 0
  then show ?case by simp
next
  case (Suc n)
  from Suc.prems obtain y w1 dst1 where
    call: "call_value_construct T w = (Returned y, w1)" and
    wr: "write_at dst cur (Some y) = Some dst1" and
    rest: "uninitialized_value_construct_loop T result (Suc cur) n dst1 w1 = (Returned u, dst', w')"
    by (auto split: prod.splits outcome.splits option.splits simp: unwind_not_Returned)
  from Suc.IH [OF rest] obtain ys where
    ys: "length ys = n" "\<forall>i<n. read_at dst' (Suc cur + i) = Some (ys ! i)"
      "\<forall>y\<in>set ys. \<exists>e e'. value_construct T e = (Inr y, e')"
      "value_constructed (trace w') = value_constructed (trace w1) @ ys"
      "destroyed (trace w') = destroyed (trace w1)"
      "allocated (trace w') = allocated (trace w1)" "released (trace w') = released (trace w1)"
    by blast
  from uninitialized_value_construct_loop_Returned [OF rest] read_at_write_at [OF wr]
  have cur: "read_at dst' cur = Some y" by simp
  have "\<forall>i<Suc n. read_at dst' (cur + i) = Some ((y # ys) ! i)"
  proof (intro allI impI)
    fix i assume "i < Suc n"
    then show "read_at dst' (cur + i) = Some ((y # ys) ! i)"
      using cur ys(2) by (cases i) auto
  qed
  moreover from call have "\<exists>e e'. value_construct T e = (Inr y, e')"
    by (auto simp: call_value_construct_def of_sum_def split: prod.splits sum.splits)
  ultimately show ?case
    using ys call_value_construct_Returned [OF call]
    by (intro exI [of _ "y # ys"]) simp
qed

lemma uninitialized_value_construct_loop_unwound:
  assumes "uninitialized_value_construct_loop T result cur n dst w = (Raised x, dst', w')"
    and "result \<le> cur" and "length zs = cur - result"
    and "\<forall>i<cur - result. read_at dst (result + i) = Some (zs ! i)"
  shows "\<exists>ys. value_constructed (trace w') = value_constructed (trace w) @ ys \<and>
           destroyed (trace w') = destroyed (trace w) @ zs @ ys \<and>
           allocated (trace w') = allocated (trace w) \<and> released (trace w') = released (trace w)"
  using assms
proof (induction n arbitrary: cur dst w zs)
  case 0
  then show ?case by simp
next
  case (Suc n)
  obtain r1 w1 where call: "call_value_construct T w = (r1, w1)"
    by (cases "call_value_construct T w") auto
  show ?case
  proof (cases r1)
    case (Returned y)
    with Suc.prems(1) call obtain dst1 where
      wr: "write_at dst cur (Some y) = Some dst1" and
      rest: "uninitialized_value_construct_loop T result (Suc cur) n dst1 w1 = (Raised x, dst', w')"
      by (auto split: option.splits)
    note a = read_at_write_at [OF wr]
    have len: "length (zs @ [y]) = Suc cur - result"
      using Suc.prems(2,3) by simp
    have "\<forall>i<Suc cur - result. read_at dst1 (result + i) = Some ((zs @ [y]) ! i)"
    proof (intro allI impI)
      fix i assume i: "i < Suc cur - result"
      show "read_at dst1 (result + i) = Some ((zs @ [y]) ! i)"
      proof (cases "i < cur - result")
        case True
        then have "result + i \<noteq> cur" by arith
        with True Suc.prems(2,3,4) a show ?thesis by (simp add: nth_append)
      next
        case False
        with i Suc.prems(2) have "result + i = cur" "i = length zs"
          using Suc.prems(3) by simp_all
        with a show ?thesis by simp
      qed
    qed
    from Suc.IH [OF rest _ len this] Suc.prems(2) obtain ys where
      "value_constructed (trace w') = value_constructed (trace w1) @ ys"
      "destroyed (trace w') = destroyed (trace w1) @ (zs @ [y]) @ ys"
      "allocated (trace w') = allocated (trace w1)" "released (trace w') = released (trace w1)"
      by auto
    with call_value_construct_Returned [OF call [unfolded Returned]] show ?thesis
      by (intro exI [of _ "y # ys"]) simp
  next
    case (Raised z)
    with Suc.prems(1) call have "unwind T z dst result cur w1 = (Raised x, dst', w')"
      by simp
    from unwind_destroyed [OF this Suc.prems(2,3,4)]
      call_value_construct_Raised [OF call [unfolded Raised]]
    show ?thesis by (intro exI [of _ "[]"]) simp
  next
    case Undefined
    with Suc.prems(1) call show ?thesis by simp
  qed
qed

section \<open>The sized constructor\<close>

lemma elements_eq_list:
  assumes "length ys = m_size v" and "\<forall>i<m_size v. read_at (m_data v) i = Some (ys ! i)"
  shows "elements v = ys"
proof (rule nth_equalityI)
  from assms(2) have lt: "i < length (slots (m_data v))" if "i < m_size v" for i
    using that by (auto dest: read_at_Some_length)
  have le: "m_size v \<le> length (slots (m_data v))"
  proof (rule ccontr)
    assume "\<not> m_size v \<le> length (slots (m_data v))"
    then have "length (slots (m_data v)) < m_size v" by simp
    from lt [OF this] show False by simp
  qed
  then show "length (elements v) = length ys" using assms(1) by (simp add: elements_def)
  fix i assume "i < length (elements v)"
  with le have i: "i < m_size v" by (simp add: elements_def)
  with assms(2) le show "elements v ! i = ys ! i"
    by (auto simp: elements_def read_at_def split: if_splits)
qed

lemma Vector_sized_Returned:
  assumes "Vector_sized T n w = (Returned v, w')"
  shows "m_size v = n \<and> Capacity v = n \<and> valid v \<and> length (elements v) = n \<and>
         (\<forall>y\<in>set (elements v). \<exists>e e'. value_construct T e = (Inr y, e')) \<and>
         value_constructed (trace w') = value_constructed (trace w) @ elements v \<and>
         destroyed (trace w') = destroyed (trace w) \<and>
         released (trace w') = released (trace w) \<and>
         allocated (trace w') = allocated (trace w) @ (if n = 0 then [] else [Vector_begin v])"
proof -
  from assms obtain d w1 where alloc: "RawMemory_sized T n w = (Returned d, w1)"
    by (auto simp: Vector_sized_def split: prod.splits outcome.splits)
  note d = RawMemory_sized_Returned [OF alloc]
  note pa = RawMemory_sized_projections [OF alloc]
  show ?thesis
  proof (cases "n = 0")
    case True
    with assms alloc have "v = \<lparr>m_data = d, m_size = 0\<rparr>" "w' = w1"
      by (simp_all add: Vector_sized_def)
    with True d pa show ?thesis
      by (simp add: Capacity_def RawMemory_Capacity_def valid_def elements_def)
  next
    case False
    with assms alloc obtain d1 where
      loop: "uninitialized_value_construct_loop T 0 0 n d w1 = (Returned (), d1, w')" and
      v: "v = \<lparr>m_data = d1, m_size = n\<rparr>"
      by (auto simp: Vector_sized_def uninitialized_value_construct_n_def
               split: prod.splits outcome.splits)
    from uninitialized_value_construct_loop_Returned [OF loop] False d
    have "n \<le> block_slots T n" by simp
    with block_slots_le [of T n] have "block_slots T n = n" by simp
    with uninitialized_value_construct_loop_block [OF loop] d
    have blk: "m_buffer d1 = m_buffer d" "m_capacity d1 = n" "length (slots d1) = n"
      by (simp_all add: same_block_def)
    from d have "\<forall>k. read_at d k = None" by (simp add: read_at_def)
    with uninitialized_value_construct_loop_Returned [OF loop]
    have occ: "\<forall>k. (read_at d1 k \<noteq> None) = (k < n)"
      by simp
    from uninitialized_value_construct_loop_built [OF loop] obtain ys where
      ys: "length ys = n" "\<forall>i<n. read_at d1 i = Some (ys ! i)"
        "\<forall>y\<in>set ys. \<exists>e e'. value_construct T e = (Inr y, e')"
        "value_constructed (trace w') = value_constructed (trace w1) @ ys"
        "destroyed (trace w') = destroyed (trace w1)"
        "allocated (trace w') = allocated (trace w1)" "released (trace w') = released (trace w1)"
      by auto
    have el: "elements v = ys"
      by (rule elements_eq_list) (use v ys in simp_all)
    have "valid v" unfolding valid_iff using v blk occ by simp
    with v blk el ys pa False show ?thesis
      by (simp add: Capacity_def RawMemory_Capacity_def Vector_begin_def GetAddress_def)
  qed
qed

lemma Vector_sized_Raised:
  assumes "Vector_sized T n w = (Raised x, w')"
  shows "\<exists>ys ps. value_constructed (trace w') = value_constructed (trace w) @ ys \<and>
           destroyed (trace w') = destroyed (trace w) @ ys \<and>
           allocated (trace w') = allocated (trace w) @ ps \<and>
           released (trace w') = released (trace w) @ ps"
proof -
  obtain r1 w1 where alloc: "RawMemory_sized T n w = (r1, w1)"
    by (cases "RawMemory_sized T n w") auto
  note pa = RawMemory_sized_projections [OF alloc]
  show ?thesis
  proof (cases r1)
    case (Returned d)
    with assms alloc obtain d1 w2 where n: "0 < n" and
      loop: "uninitialized_value_construct_loop T 0 0 n d w1 = (Raised x, d1, w2)" and
      w': "w' = RawMemory_dtor T d1 w2"
      by (auto simp: Vector_sized_def uninitialized_value_construct_n_def
               split: prod.splits outcome.splits if_splits)
    from uninitialized_value_construct_loop_block [OF loop]
    have blk: "m_buffer d1 = m_buffer d" by (simp add: same_block_def)
    from uninitialized_value_construct_loop_unwound [OF loop, of "[]"] obtain ys where
      "value_constructed (trace w2) = value_constructed (trace w1) @ ys"
      "destroyed (trace w2) = destroyed (trace w1) @ ys"
      "allocated (trace w2) = allocated (trace w1)" "released (trace w2) = released (trace w1)"
      by auto
    with pa Returned n w' blk show ?thesis
      by (intro exI [of _ ys] exI [of _ "[m_buffer d]"]) simp
  next
    case (Raised z)
    with assms alloc have "w' = w1" by (simp add: Vector_sized_def)
    with pa Raised show ?thesis
      by (intro exI [of _ "[]"]) simp
  next
    case Undefined
    with assms alloc show ?thesis by (simp add: Vector_sized_def)
  qed
qed

section \<open>Calls that have a defined outcome\<close>

lemma destroy_at_defined:
  "read_at m i \<noteq> None \<Longrightarrow> \<exists>m' w'. destroy_at T m i w = (Returned (), m', w')"
  by (auto simp: destroy_at_def read_at_def write_at_def split: option.splits if_splits)

lemma destroy_n_defined:
  assumes "\<forall>k. first \<le> k \<and> k < first + n \<longrightarrow> read_at m k \<noteq> None"
  shows "\<exists>m' w'. destroy_n T m first n w = (Returned (), m', w')"
  using assms
proof (induction n arbitrary: m first w)
  case 0
  then show ?case by simp
next
  case (Suc n)
  from Suc.prems have "read_at m first \<noteq> None" by simp
  from destroy_at_defined [OF this] obtain m1 w1 where
    step: "destroy_at T m first w = (Returned (), m1, w1)" by blast
  from destroy_at_read [OF step] Suc.prems
  have "\<forall>k. Suc first \<le> k \<and> k < Suc first + n \<longrightarrow> read_at m1 k \<noteq> None" by auto
  from Suc.IH [OF this] obtain m' w' where "destroy_n T m1 (Suc first) n w1 = (Returned (), m', w')"
    by blast
  with step show ?case by simp
qed

lemma unwind_defined:
  assumes "\<forall>k. result \<le> k \<and> k < cur \<longrightarrow> read_at dst k \<noteq> None"
  shows "\<exists>dst' w'. unwind T x dst result cur w = (Raised x, dst', w')"
proof -
  from assms have "\<forall>k. result \<le> k \<and> k < result + (cur - result) \<longrightarrow> read_at dst k \<noteq> None"
    by auto
  from destroy_n_defined [OF this] obtain m' w' where
    "destroy_n T dst result (cur - result) w = (Returned (), m', w')" by blast
  then show ?thesis by (simp add: unwind_def)
qed

lemma call_value_construct_defined: "call_value_construct T w \<noteq> (Undefined, w')"
  by (auto simp: call_value_construct_def of_sum_def split: prod.splits sum.splits)

lemma uninitialized_value_construct_loop_defined:
  assumes "cur + n \<le> length (slots dst)"
    and "\<forall>k. result \<le> k \<and> k < cur \<longrightarrow> read_at dst k \<noteq> None"
  shows "fst (uninitialized_value_construct_loop T result cur n dst w) \<noteq> Undefined"
  using assms
proof (induction n arbitrary: cur dst w)
  case 0
  then show ?case by simp
next
  case (Suc n)
  obtain r1 w1 where call: "call_value_construct T w = (r1, w1)"
    by (cases "call_value_construct T w") auto
  show ?case
  proof (cases r1)
    case (Returned y)
    from Suc.prems(1) obtain dst1 where wr: "write_at dst cur (Some y) = Some dst1"
      by (auto simp: write_at_def)
    note a = read_at_write_at [OF wr]
    from a Suc.prems(1) have 1: "Suc cur + n \<le> length (slots dst1)" by simp
    from a Suc.prems(2) have 2: "\<forall>k. result \<le> k \<and> k < Suc cur \<longrightarrow> read_at dst1 k \<noteq> None"
      by auto
    from Suc.IH [OF 1 2] call Returned wr show ?thesis by simp
  next
    case (Raised z)
    from unwind_defined [OF Suc.prems(2)] obtain dst' w' where
      "unwind T z dst result cur w1 = (Raised z, dst', w')" by blast
    with call Raised show ?thesis by simp
  next
    case Undefined
    with call call_value_construct_defined show ?thesis by blast
  qed
qed

lemma RawMemory_sized_defined: "RawMemory_sized T n w \<noteq> (Undefined, w')"
  by (auto simp: RawMemory_sized_def Allocate_def call_operator_new_def of_sum_def
           split: prod.splits outcome.splits sum.splits if_splits)

lemma Vector_sized_defined:
  assumes "fits_size_t T n"
  shows "fst (Vector_sized T n w) \<noteq> Undefined"
proof -
  obtain r1 w1 where alloc: "RawMemory_sized T n w = (r1, w1)"
    by (cases "RawMemory_sized T n w") auto
  show ?thesis
  proof (cases r1)
    case (Returned d)
    with alloc RawMemory_sized_Returned [of T n w d w1] block_slots_fits [OF assms]
    have d: "slots d = replicate n None" by simp
    then have "0 + n \<le> length (slots d)" by simp
    moreover have "\<forall>k. 0 \<le> k \<and> k < (0::nat) \<longrightarrow> read_at d k \<noteq> None" by simp
    ultimately have "fst (uninitialized_value_construct_loop T 0 0 n d w1) \<noteq> Undefined"
      by (rule uninitialized_value_construct_loop_defined)
    with alloc Returned show ?thesis
      by (auto simp: Vector_sized_def uninitialized_value_construct_n_def
               split: prod.splits outcome.splits)
  next
    case (Raised x)
    with alloc show ?thesis by (simp add: Vector_sized_def)
  next
    case Undefined
    with alloc RawMemory_sized_defined show ?thesis by blast
  qed
qed

lemma uninitialized_value_construct_loop_overrun:
  assumes "value_construct T (env w) = (Inr y, e1)" and "value_construct T e1 = (Inr z, e2)"
    and "length (slots dst) = 1"
  shows "uninitialized_value_construct_loop T 0 0 (Suc (Suc k)) dst w =
           (Undefined, dst\<lparr>slots := [Some y]\<rparr>,
            \<lparr>env = e2, trace = trace w @ [ValueConstruct (Inr y), ValueConstruct (Inr z)]\<rparr>)"
proof -
  from assms(3) obtain s where s: "slots dst = [s]" by (cases "slots dst") auto
  with assms(1,2) show ?thesis
    by (simp add: call_value_construct_def of_sum_def write_at_def)
qed

section \<open>The live slots\<close>

lemma valid_live:
  "valid v \<longleftrightarrow>
     length (slots (m_data v)) = m_capacity (m_data v) \<and>
     m_size v \<le> m_capacity (m_data v) \<and> live (m_data v) = {..<m_size v}"
  unfolding valid_iff live_def by auto

lemma live_replicate [simp]:
  "live \<lparr>m_buffer = p, m_capacity = c, slots = replicate n None\<rparr> = {}"
  by (simp add: live_def)

lemma live_bound: "k \<in> live m \<Longrightarrow> k < length (slots m)"
  by (auto simp: live_def read_at_def split: if_splits)

lemma write_at_live:
  assumes "write_at m i (Some y) = Some m'"
  shows "live m' = insert i (live m) \<and> same_block m m' \<and> i < length (slots m)"
  using read_at_write_at [OF assms] write_at_block [OF assms]
  by (auto simp: live_def split: if_splits)

lemma destroy_at_live:
  assumes "destroy_at T m i w = (Returned u, m', w')"
  shows "live m' = live m - {i} \<and> i \<in> live m \<and> same_block m m'"
  using destroy_at_read [OF assms] destroy_at_block [OF assms]
  by (auto simp: live_def split: if_splits)

lemma destroy_n_live:
  assumes "destroy_n T m first n w = (Returned u, m', w')"
  shows "live m' = live m - {first..<first + n} \<and> {first..<first + n} \<subseteq> live m \<and>
         same_block m m'"
  using destroy_n_read [OF assms] destroy_n_block [OF assms]
  by (auto simp: live_def split: if_splits)

lemma placement_new_live:
  assumes "placement_new args m i w = (Returned u, m', w')"
  shows "live m' = insert i (live m) \<and> same_block m m' \<and> i < length (slots m)"
proof -
  from assms obtain y where "write_at m i (Some y) = Some m'"
    by (auto simp: placement_new_def split: option.splits prod.splits outcome.splits)
  from write_at_live [OF this] show ?thesis .
qed

lemma placement_new_Raised_same:
  "placement_new args m i w = (Raised x, m', w') \<Longrightarrow> m' = m"
  by (auto simp: placement_new_def split: option.splits prod.splits outcome.splits)

lemma relocate_n_live_Returned:
  assumes "relocate_n T src first n dst result w = (Returned u, src', dst', w')"
  shows "live dst' = live dst \<union> {result..<result + n} \<and> live src' = live src \<and>
         same_block dst dst' \<and> same_block src src' \<and>
         (0 < n \<longrightarrow> result + n \<le> length (slots dst))"
  using relocate_n_Returned_occ [OF assms] relocate_n_src [OF assms] relocate_n_block [OF assms]
  by (auto simp: live_def)

lemma relocate_n_live_Raised:
  assumes "relocate_n T src first n dst result w = (Raised x, src', dst', w')"
    and "live dst \<inter> {result..<result + n} = {}"
  shows "live dst' = live dst \<and> live src' = live src \<and>
         same_block dst dst' \<and> same_block src src'"
proof -
  from assms(2) have "\<forall>k. result \<le> k \<and> k < result + n \<longrightarrow> read_at dst k = None"
    by (auto simp: live_def)
  from relocate_n_Raised [OF assms(1) this] relocate_n_src [OF assms(1)]
    relocate_n_block [OF assms(1)]
  show ?thesis by (auto simp: live_def)
qed

lemma uninitialized_value_construct_n_live_Returned:
  assumes "uninitialized_value_construct_n T dst first n w = (Returned u, dst', w')"
  shows "live dst' = live dst \<union> {first..<first + n} \<and> same_block dst dst' \<and>
         (0 < n \<longrightarrow> first + n \<le> length (slots dst))"
proof -
  from assms have l: "uninitialized_value_construct_loop T first first n dst w = (Returned u, dst', w')"
    by (simp add: uninitialized_value_construct_n_def)
  from uninitialized_value_construct_loop_Returned [OF l]
    uninitialized_value_construct_loop_block [OF l]
  show ?thesis by (auto simp: live_def)
qed

lemma uninitialized_value_construct_n_live_Raised:
  assumes "uninitialized_value_construct_n T dst first n w = (Raised x, dst', w')"
    and "live dst \<inter> {first..<first + n} = {}"
  shows "live dst' = live dst \<and> same_block dst dst'"
proof -
  from assms have l: "uninitialized_value_construct_loop T first first n dst w = (Raised x, dst', w')"
    by (simp add: uninitialized_value_construct_n_def)
  from assms(2) have "\<forall>k. first \<le> k \<and> k < first + n \<longrightarrow> read_at dst k = None"
    by (auto simp: live_def)
  from uninitialized_value_construct_loop_Raised [OF l le_refl this]
    uninitialized_value_construct_loop_block [OF l]
  show ?thesis by (auto simp: live_def)
qed

lemma uninitialized_copy_n_live_Returned:
  assumes "uninitialized_copy_n T src first n dst result w = (Returned u, dst', w')"
  shows "live dst' = live dst \<union> {result..<result + n} \<and> same_block dst dst' \<and>
         (0 < n \<longrightarrow> result + n \<le> length (slots dst))"
proof -
  from assms have l: "uninitialized_copy_loop T src first n result result dst w = (Returned u, dst', w')"
    by (simp add: uninitialized_copy_n_def)
  from uninitialized_copy_loop_Returned_occ [OF l] uninitialized_copy_loop_block [OF l]
  show ?thesis by (auto simp: live_def)
qed

lemma uninitialized_copy_n_live_Raised:
  assumes "uninitialized_copy_n T src first n dst result w = (Raised x, dst', w')"
    and "live dst \<inter> {result..<result + n} = {}"
  shows "live dst' = live dst \<and> same_block dst dst'"
proof -
  from assms have l: "uninitialized_copy_loop T src first n result result dst w = (Raised x, dst', w')"
    by (simp add: uninitialized_copy_n_def)
  from assms(2) have "\<forall>k. result \<le> k \<and> k < result + n \<longrightarrow> read_at dst k = None"
    by (auto simp: live_def)
  from uninitialized_copy_loop_Raised [OF l le_refl this] uninitialized_copy_loop_block [OF l]
  show ?thesis by (auto simp: live_def)
qed

lemma move_assign_slot_live:
  "move_assign_slot T m d s w = (r, m', w') \<Longrightarrow> live m' = live m \<and> same_block m m'"
  by (auto simp: move_assign_slot_def live_def read_at_def same_block_def nth_list_update
           split: option.splits prod.splits outcome.splits if_splits)

lemma std_move_live:
  "std_move T m first n d_first w = (r, m', w') \<Longrightarrow> live m' = live m \<and> same_block m m'"
proof (induction n arbitrary: m first d_first w)
  case 0
  then show ?case by simp
next
  case (Suc n)
  then show ?case
    by (auto split: prod.splits outcome.splits dest!: move_assign_slot_live Suc.IH
             simp: same_block_def)
qed

lemma std_move_backward_live:
  "std_move_backward T m first n d_last w = (r, m', w') \<Longrightarrow> live m' = live m \<and> same_block m m'"
proof (induction n arbitrary: m d_last w)
  case 0
  then show ?case by simp
next
  case (Suc n)
  then show ?case
    by (auto split: if_splits prod.splits outcome.splits dest!: move_assign_slot_live Suc.IH
             simp: same_block_def)
qed

lemma std_copy_live:
  "std_copy T src first n dst d_first w = (r, dst', w') \<Longrightarrow>
     live dst' = live dst \<and> same_block dst dst'"
proof (induction n arbitrary: first dst d_first w)
  case 0
  then show ?case by simp
next
  case (Suc n)
  show ?case
  proof (cases "read_at dst d_first")
    case None
    with Suc.prems show ?thesis by (auto split: option.splits)
  next
    case (Some d)
    then have "d_first \<in> live dst" by (simp add: live_def)
    then have ins: "insert d_first (live dst) = live dst" by auto
    from Suc.prems Some show ?thesis
      by (auto split: prod.splits outcome.splits option.splits
               dest!: write_at_live Suc.IH simp: same_block_def ins)
  qed
qed

section \<open>The paths through a growing EmplaceBack and Emplace\<close>

lemma EmplaceBack_grow_Returned_ex:
  assumes "EmplaceBack T args v w = (Returned p, v', w')" and "m_size v = Capacity v"
  shows "\<exists>nd w1 nd1 w2 old1 nd2 w3 old2 w4.
    RawMemory_sized T (if m_size v = 0 then 1 else m_size v * 2) w = (Returned nd, w1) \<and>
    placement_new args nd (m_size v) w1 = (Returned (), nd1, w2) \<and>
    relocate_n T (m_data v) 0 (m_size v) nd1 0 w2 = (Returned (), old1, nd2, w3) \<and>
    destroy_n T old1 0 (m_size v) w3 = (Returned (), old2, w4) \<and>
    v' = \<lparr>m_data = nd2, m_size = m_size v + 1\<rparr> \<and> w' = RawMemory_dtor T old2 w4"
  using assms unfolding EmplaceBack_def RawMemory_Swap_def Let_def
  by (simp split: prod.splits outcome.splits option.splits split del: if_split; blast)

lemma EmplaceBack_grow_Returned_path:
  assumes "EmplaceBack T args v w = (Returned p, v', w')" and "m_size v = Capacity v"
  obtains nd w1 nd1 w2 old1 nd2 w3 old2 w4 where
    "RawMemory_sized T (if m_size v = 0 then 1 else m_size v * 2) w = (Returned nd, w1)"
    "placement_new args nd (m_size v) w1 = (Returned (), nd1, w2)"
    "relocate_n T (m_data v) 0 (m_size v) nd1 0 w2 = (Returned (), old1, nd2, w3)"
    "destroy_n T old1 0 (m_size v) w3 = (Returned (), old2, w4)"
    "v' = \<lparr>m_data = nd2, m_size = m_size v + 1\<rparr>" "w' = RawMemory_dtor T old2 w4"
  using EmplaceBack_grow_Returned_ex [OF assms] that by blast

lemma EmplaceBack_grow_Raised_ex:
  assumes "EmplaceBack T args v w = (Raised x, v', w')" and "m_size v = Capacity v"
  shows "v' = v \<or>
    (\<exists>nd w1 nd1 w2 old1 nd2 w3.
      RawMemory_sized T (if m_size v = 0 then 1 else m_size v * 2) w = (Returned nd, w1) \<and>
      placement_new args nd (m_size v) w1 = (Returned (), nd1, w2) \<and>
      relocate_n T (m_data v) 0 (m_size v) nd1 0 w2 = (Raised x, old1, nd2, w3) \<and>
      v' = v\<lparr>m_data := old1\<rparr>)"
  using assms unfolding EmplaceBack_def RawMemory_Swap_def Let_def
  by (simp split: prod.splits outcome.splits option.splits split del: if_split; blast)

lemma EmplaceBack_grow_Raised_path:
  assumes "EmplaceBack T args v w = (Raised x, v', w')" and "m_size v = Capacity v"
  obtains (unchanged) "v' = v"
  | (relocate) nd w1 nd1 w2 old1 nd2 w3 where
      "RawMemory_sized T (if m_size v = 0 then 1 else m_size v * 2) w = (Returned nd, w1)"
      "placement_new args nd (m_size v) w1 = (Returned (), nd1, w2)"
      "relocate_n T (m_data v) 0 (m_size v) nd1 0 w2 = (Raised x, old1, nd2, w3)"
      "v' = v\<lparr>m_data := old1\<rparr>"
  using EmplaceBack_grow_Raised_ex [OF assms] that by blast

lemma Emplace_reallocate_Returned_ex:
  assumes "Emplace_reallocate T offset args v w = (Returned p, v', w')"
  shows "\<exists>nd w1 nd1 w2 old1 nd2 w3 old2 nd3 w4 old3 w5.
    RawMemory_sized T (if m_size v = 0 then 1 else m_size v * 2) w = (Returned nd, w1) \<and>
    placement_new args nd offset w1 = (Returned (), nd1, w2) \<and>
    (if offset > 0 then relocate_n T (m_data v) 0 offset nd1 0 w2
      else (Returned (), m_data v, nd1, w2)) = (Returned (), old1, nd2, w3) \<and>
    (if m_size v > offset then relocate_n T old1 offset (m_size v - offset) nd2 (offset + 1) w3
      else (Returned (), old1, nd2, w3)) = (Returned (), old2, nd3, w4) \<and>
    destroy_n T old2 0 (m_size v) w4 = (Returned (), old3, w5) \<and>
    v' = \<lparr>m_data = nd3, m_size = m_size v + 1\<rparr> \<and> w' = RawMemory_dtor T old3 w5 \<and>
    p = m_buffer nd3 + offset"
  using assms unfolding Emplace_reallocate_def RawMemory_Swap_def Let_def GetAddress_def
  by (simp split: prod.splits outcome.splits option.splits split del: if_split; blast)

lemma Emplace_reallocate_Returned_path:
  assumes "Emplace_reallocate T offset args v w = (Returned p, v', w')"
  obtains nd w1 nd1 w2 old1 nd2 w3 old2 nd3 w4 old3 w5 where
    "RawMemory_sized T (if m_size v = 0 then 1 else m_size v * 2) w = (Returned nd, w1)"
    "placement_new args nd offset w1 = (Returned (), nd1, w2)"
    "(if offset > 0 then relocate_n T (m_data v) 0 offset nd1 0 w2
      else (Returned (), m_data v, nd1, w2)) = (Returned (), old1, nd2, w3)"
    "(if m_size v > offset then relocate_n T old1 offset (m_size v - offset) nd2 (offset + 1) w3
      else (Returned (), old1, nd2, w3)) = (Returned (), old2, nd3, w4)"
    "destroy_n T old2 0 (m_size v) w4 = (Returned (), old3, w5)"
    "v' = \<lparr>m_data = nd3, m_size = m_size v + 1\<rparr>" "w' = RawMemory_dtor T old3 w5"
    "p = m_buffer nd3 + offset"
  using Emplace_reallocate_Returned_ex [OF assms] that by blast

lemma Emplace_reallocate_Raised_ex:
  assumes "Emplace_reallocate T offset args v w = (Raised x, v', w')"
  shows "v' = v \<or>
    (\<exists>nd1 w2 old1 nd2 w3.
      (if offset > 0 then relocate_n T (m_data v) 0 offset nd1 0 w2
       else (Returned (), m_data v, nd1, w2)) = (Raised x, old1, nd2, w3) \<and>
      v' = v\<lparr>m_data := old1\<rparr>) \<or>
    (\<exists>nd1 w2 old1 nd2 w3 old2 nd3 w4.
      (if offset > 0 then relocate_n T (m_data v) 0 offset nd1 0 w2
       else (Returned (), m_data v, nd1, w2)) = (Returned (), old1, nd2, w3) \<and>
      (if m_size v > offset then relocate_n T old1 offset (m_size v - offset) nd2 (offset + 1) w3
       else (Returned (), old1, nd2, w3)) = (Raised x, old2, nd3, w4) \<and>
      v' = v\<lparr>m_data := old2\<rparr>)"
  using assms unfolding Emplace_reallocate_def RawMemory_Swap_def Let_def
  by (simp split: prod.splits outcome.splits option.splits split del: if_split; blast)

section \<open>Where the elements are after a growth\<close>

lemma placement_new_read:
  assumes "placement_new args m i w = (Returned u, m', w')"
  shows "\<exists>y e. args (env w) = (Returned y, e) \<and>
           (\<forall>k. read_at m' k = (if k = i then Some y else read_at m k)) \<and>
           length (slots m') = length (slots m) \<and> i < length (slots m)"
proof -
  from assms obtain y e where "args (env w) = (Returned y, e)" "write_at m i (Some y) = Some m'"
    by (auto simp: placement_new_def call_construct_def
             split: option.splits prod.splits outcome.splits)
  with read_at_write_at [of m i "Some y" m'] show ?thesis by auto
qed

lemma valid_read:
  assumes "valid v" and "i < m_size v"
  shows "read_at (m_data v) i = Some (elements v ! i)"
proof -
  from assms have "i < length (slots (m_data v))" "read_at (m_data v) i \<noteq> None"
    by (auto simp: valid_iff)
  with assms(2) show ?thesis by (auto simp: read_at_def elements_def)
qed

lemma valid_length_elements: "valid v \<Longrightarrow> length (elements v) = m_size v"
  by (simp add: elements_def valid_def)

lemma EmplaceBack_grow_elements:
  assumes "EmplaceBack T args v w = (Returned p, v', w')" and "m_size v = Capacity v"
    and "valid v" and "faithful_construction T"
  shows "\<exists>nd w1 y e.
           RawMemory_sized T (if m_size v = 0 then 1 else m_size v * 2) w = (Returned nd, w1) \<and>
           args (env w1) = (Returned y, e) \<and>
           Vector_begin v' = m_buffer nd \<and> m_size v' = m_size v + 1 \<and>
           elements v' = elements v @ [y]"
  using assms(1,2)
proof (cases rule: EmplaceBack_grow_Returned_path)
  case (1 nd w1 nd1 w2 old1 nd2 w3 old2 w4)
  from RawMemory_sized_Returned [OF 1(1)] have rnd: "\<And>k. read_at nd k = None"
    by (simp add: read_at_def)
  from placement_new_read [OF 1(2)] obtain y e where
    y: "args (env w1) = (Returned y, e)" and
    r1: "\<And>k. read_at nd1 k = (if k = m_size v then Some y else read_at nd k)"
    by blast
  from relocate_n_Returned [OF 1(3) assms(4)]
  have r2: "\<And>k. read_at nd2 k = (if k < m_size v then read_at (m_data v) k else read_at nd1 k)"
    by simp
  from relocate_n_block [OF 1(3)] placement_new_block [OF 1(2)]
  have buf: "m_buffer nd2 = m_buffer nd" by (simp add: same_block_def)
  let ?ys = "elements v @ [y]"
  have len: "length ?ys = m_size v'" using 1(5) valid_length_elements [OF assms(3)] by simp
  have rd: "\<forall>i<m_size v'. read_at (m_data v') i = Some (?ys ! i)"
  proof (intro allI impI)
    fix i assume "i < m_size v'"
    with 1(5) have i: "i \<le> m_size v" by simp
    show "read_at (m_data v') i = Some (?ys ! i)"
    proof (cases "i < m_size v")
      case True
      with r2 1(5) valid_read [OF assms(3) True] valid_length_elements [OF assms(3)]
      show ?thesis by (simp add: nth_append)
    next
      case False
      with i have "i = m_size v" by simp
      with r2 r1 1(5) valid_length_elements [OF assms(3)] show ?thesis by (simp add: nth_append)
    qed
  qed
  from elements_eq_list [OF len rd] have "elements v' = ?ys" .
  with 1(1) y buf 1(5) show ?thesis
    by (simp add: Vector_begin_def GetAddress_def)
qed

lemma Emplace_reallocate_elements:
  assumes "Emplace_reallocate T offset args v w = (Returned p, v', w')" and "offset \<le> m_size v"
    and "valid v" and "faithful_construction T"
  shows "\<exists>nd w1 y e.
           RawMemory_sized T (if m_size v = 0 then 1 else m_size v * 2) w = (Returned nd, w1) \<and>
           args (env w1) = (Returned y, e) \<and>
           Vector_begin v' = m_buffer nd \<and> m_size v' = m_size v + 1 \<and>
           elements v' = take offset (elements v) @ [y] @ drop offset (elements v)"
  using assms(1)
proof (cases rule: Emplace_reallocate_Returned_path)
  case (1 nd w1 nd1 w2 old1 nd2 w3 old2 nd3 w4 old3 w5)
  from RawMemory_sized_Returned [OF 1(1)] have rnd: "\<And>k. read_at nd k = None"
    by (simp add: read_at_def)
  from placement_new_read [OF 1(2)] obtain y e where
    y: "args (env w1) = (Returned y, e)" and
    r1: "\<And>k. read_at nd1 k = (if k = offset then Some y else read_at nd k)"
    by blast
  have pre: "(\<forall>k. read_at nd2 k = (if k < offset then read_at (m_data v) k else read_at nd1 k)) \<and>
             (\<forall>k. offset \<le> k \<longrightarrow> read_at old1 k = read_at (m_data v) k) \<and>
             m_buffer nd2 = m_buffer nd1"
  proof (cases "0 < offset")
    case True
    with 1(3) have r: "relocate_n T (m_data v) 0 offset nd1 0 w2 = (Returned (), old1, nd2, w3)"
      by simp
    from relocate_n_Returned [OF r assms(4)] relocate_n_src [OF r] relocate_n_block [OF r]
    show ?thesis by (simp add: same_block_def)
  next
    case False
    with 1(3) show ?thesis by simp
  qed
  have suf: "(\<forall>k. read_at nd3 k =
                 (if offset < k \<and> k < m_size v + 1 then read_at old1 (k - 1) else read_at nd2 k)) \<and>
             m_buffer nd3 = m_buffer nd2"
  proof (cases "offset < m_size v")
    case True
    with 1(4) have r: "relocate_n T old1 offset (m_size v - offset) nd2 (offset + 1) w3 =
        (Returned (), old2, nd3, w4)"
      by simp
    have "read_at nd3 k =
            (if offset < k \<and> k < m_size v + 1 then read_at old1 (k - 1) else read_at nd2 k)" for k
    proof -
      from relocate_n_Returned [OF r assms(4)]
      have "read_at nd3 k =
              (if offset + 1 \<le> k \<and> k < offset + 1 + (m_size v - offset)
               then read_at old1 (offset + (k - (offset + 1))) else read_at nd2 k)"
        by blast
      moreover have "(offset + 1 \<le> k \<and> k < offset + 1 + (m_size v - offset)) =
          (offset < k \<and> k < m_size v + 1)"
        using True by arith
      moreover have "offset + (k - (offset + 1)) = k - 1" if "offset < k"
        using that by arith
      ultimately show ?thesis by auto
    qed
    with relocate_n_block [OF r] show ?thesis by (simp add: same_block_def)
  next
    case False
    with assms(2) have "offset = m_size v" by simp
    with 1(4) show ?thesis by auto
  qed
  from pre suf placement_new_block [OF 1(2)]
  have buf: "m_buffer nd3 = m_buffer nd" by (simp add: same_block_def)
  let ?els = "elements v"
  let ?ys = "take offset ?els @ [y] @ drop offset ?els"
  note le = valid_length_elements [OF assms(3)]
  have len: "length ?ys = m_size v'" using 1(6) le assms(2) by simp
  have rd: "\<forall>i<m_size v'. read_at (m_data v') i = Some (?ys ! i)"
  proof (intro allI impI)
    fix i assume "i < m_size v'"
    with 1(6) have i: "i \<le> m_size v" by simp
    consider "i < offset" | "i = offset" | "offset < i" by arith
    then show "read_at (m_data v') i = Some (?ys ! i)"
    proof cases
      case 1
      with assms(2) have iv: "i < m_size v" by simp
      from 1 pre suf have "read_at nd3 i = read_at (m_data v) i" by simp
      with valid_read [OF assms(3) iv] \<open>v' = _\<close> 1 le assms(2) show ?thesis
        by (simp add: nth_append)
    next
      case 2
      with pre suf r1 have "read_at nd3 i = Some y" by simp
      with \<open>v' = _\<close> 2 le assms(2) show ?thesis by (simp add: nth_append)
    next
      case 3
      with i have iv: "i - 1 < m_size v" "offset \<le> i - 1" by arith+
      from 3 i pre suf have "read_at nd3 i = read_at (m_data v) (i - 1)" by simp
      with valid_read [OF assms(3) iv(1)] have "read_at nd3 i = Some (?els ! (i - 1))" by simp
      moreover from 3 i le assms(2) have "?ys ! i = ?els ! (i - 1)"
        by (simp add: nth_append min_def)
      ultimately show ?thesis using \<open>v' = _\<close> by simp
    qed
  qed
  from elements_eq_list [OF len rd] have "elements v' = ?ys" .
  with 1(1) y buf 1(6) show ?thesis
    by (simp add: Vector_begin_def GetAddress_def)
qed

section \<open>What a failed growth leaves\<close>

lemma relocate_n_src_shape:
  assumes "relocate_n T src first n dst result w = (r, src', dst', w')"
  shows "(\<forall>k. (read_at src' k = None) = (read_at src k = None)) \<and>
         length (slots src') = length (slots src) \<and> m_capacity src' = m_capacity src \<and>
         m_buffer src' = m_buffer src"
  using relocate_n_src [OF assms] relocate_n_block [OF assms] by (simp add: same_block_def)

lemma valid_same_shape_basic:
  assumes "valid v"
    and "(\<forall>k. (read_at d k = None) = (read_at (m_data v) k = None)) \<and>
         length (slots d) = length (slots (m_data v)) \<and> m_capacity d = m_capacity (m_data v) \<and>
         m_buffer d = m_buffer (m_data v)"
  shows "valid (v\<lparr>m_data := d\<rparr>) \<and> m_size (v\<lparr>m_data := d\<rparr>) = m_size v \<and>
         Capacity (v\<lparr>m_data := d\<rparr>) = Capacity v \<and>
         Vector_begin (v\<lparr>m_data := d\<rparr>) = Vector_begin v"
  using valid_same_shape [OF assms(1), of d] assms(2)
  by (simp add: Capacity_def RawMemory_Capacity_def Vector_begin_def GetAddress_def)

lemma EmplaceBack_grow_Raised_basic:
  assumes "EmplaceBack T args v w = (Raised x, v', w')" and "m_size v = Capacity v"
    and "valid v"
  shows "valid v' \<and> m_size v' = m_size v \<and> Capacity v' = Capacity v \<and>
         Vector_begin v' = Vector_begin v"
  using assms(1,2)
proof (cases rule: EmplaceBack_grow_Raised_path)
  case unchanged
  with assms(3) show ?thesis by simp
next
  case (relocate nd w1 nd1 w2 old1 nd2 w3)
  from valid_same_shape_basic [OF assms(3) relocate_n_src_shape [OF relocate(3)]] relocate(4)
  show ?thesis by simp
qed

lemma Emplace_reallocate_Raised_basic:
  assumes "Emplace_reallocate T offset args v w = (Raised x, v', w')" and "valid v"
  shows "valid v' \<and> m_size v' = m_size v \<and> Capacity v' = Capacity v \<and>
         Vector_begin v' = Vector_begin v"
proof -
  from Emplace_reallocate_Raised_ex [OF assms(1)]
  consider (unchanged) "v' = v"
    | (prefix) nd1 w2 old1 nd2 w3 where
        "(if offset > 0 then relocate_n T (m_data v) 0 offset nd1 0 w2
          else (Returned (), m_data v, nd1, w2)) = (Raised x, old1, nd2, w3)"
        "v' = v\<lparr>m_data := old1\<rparr>"
    | (suffix) nd1 w2 old1 nd2 w3 old2 nd3 w4 where
        "(if offset > 0 then relocate_n T (m_data v) 0 offset nd1 0 w2
          else (Returned (), m_data v, nd1, w2)) = (Returned (), old1, nd2, w3)"
        "(if m_size v > offset
          then relocate_n T old1 offset (m_size v - offset) nd2 (offset + 1) w3
          else (Returned (), old1, nd2, w3)) = (Raised x, old2, nd3, w4)"
        "v' = v\<lparr>m_data := old2\<rparr>"
    by blast
  then show ?thesis
  proof cases
    case unchanged
    with assms(2) show ?thesis by simp
  next
    case prefix
    from prefix(1) have r: "relocate_n T (m_data v) 0 offset nd1 0 w2 = (Raised x, old1, nd2, w3)"
      by (simp split: if_splits)
    from valid_same_shape_basic [OF assms(2) relocate_n_src_shape [OF r]] prefix(2)
    show ?thesis by simp
  next
    case suffix
    have a: "(\<forall>k. (read_at old1 k = None) = (read_at (m_data v) k = None)) \<and>
         length (slots old1) = length (slots (m_data v)) \<and>
         m_capacity old1 = m_capacity (m_data v) \<and> m_buffer old1 = m_buffer (m_data v)"
    proof (cases "0 < offset")
      case True
      with suffix(1) have "relocate_n T (m_data v) 0 offset nd1 0 w2 = (Returned (), old1, nd2, w3)"
        by simp
      then show ?thesis by (rule relocate_n_src_shape)
    next
      case False
      with suffix(1) show ?thesis by simp
    qed
    from suffix(2) have r: "relocate_n T old1 offset (m_size v - offset) nd2 (offset + 1) w3 =
        (Raised x, old2, nd3, w4)"
      by (simp split: if_splits)
    from relocate_n_src_shape [OF r] a
    have "(\<forall>k. (read_at old2 k = None) = (read_at (m_data v) k = None)) \<and>
         length (slots old2) = length (slots (m_data v)) \<and>
         m_capacity old2 = m_capacity (m_data v) \<and> m_buffer old2 = m_buffer (m_data v)"
      by simp
    from valid_same_shape_basic [OF assms(2) this] suffix(3) show ?thesis by simp
  qed
qed

lemma Emplace_grow_Raised_basic:
  assumes "Emplace T pos args v w = (Raised x, v', w')" and "m_size v = Capacity v"
    and "valid v"
  shows "valid v' \<and> m_size v' = m_size v \<and> Capacity v' = Capacity v \<and>
         Vector_begin v' = Vector_begin v"
  using assms(1)
proof (cases rule: Emplace_cases)
  case out_of_range
  then show ?thesis by simp
next
  case reallocate
  from reallocate(4) assms(3) show ?thesis by (rule Emplace_reallocate_Raised_basic)
next
  case (tail q)
  with assms(2) show ?thesis by simp
next
  case middle
  with assms(2) show ?thesis by simp
qed

section \<open>Where the elements are after a growth, continued\<close>

lemma Emplace_grow_elements:
  assumes "Emplace T pos args v w = (Returned p, v', w')" and "m_size v = Capacity v"
    and "valid v" and "faithful_construction T"
  shows "\<exists>nd w1 y e.
           RawMemory_sized T (if m_size v = 0 then 1 else m_size v * 2) w = (Returned nd, w1) \<and>
           args (env w1) = (Returned y, e) \<and>
           Vector_begin v' = m_buffer nd \<and> m_size v' = m_size v + 1 \<and>
           elements v' = take (pos - Vector_begin v) (elements v) @ [y] @
                         drop (pos - Vector_begin v) (elements v)"
  using assms(1)
proof (cases rule: Emplace_cases)
  case out_of_range
  then show ?thesis by simp
next
  case reallocate
  from reallocate(1,2) have "pos - Vector_begin v \<le> m_size v"
    by (simp add: Vector_begin_def Vector_end_def)
  with reallocate(4) show ?thesis using assms(3,4) by (rule Emplace_reallocate_elements)
next
  case (tail q)
  with assms(2) show ?thesis by simp
next
  case middle
  with assms(2) show ?thesis by simp
qed

lemma Reserve_grow_block:
  assumes "Reserve T n v w = (Returned u, v', w')" and "Capacity v < n"
  shows "\<exists>nd w1. RawMemory_sized T n w = (Returned nd, w1) \<and> Vector_begin v' = m_buffer nd"
  using assms
proof (cases rule: Reserve_Returned)
  case (1 nd w1 old1 nd1 w2 old2 w3)
  have "same_block nd nd1"
  proof (cases "0 < m_size v")
    case True
    with 1(2) have "relocate_n T (m_data v) 0 (m_size v) nd 0 w1 = (Returned (), old1, nd1, w2)"
      by simp
    from relocate_n_block [OF this] show ?thesis by simp
  next
    case False
    with 1(2) show ?thesis by (simp add: same_block_def)
  qed
  with 1(1,4) show ?thesis by (simp add: Vector_begin_def GetAddress_def same_block_def)
qed

section \<open>The claims\<close>

text \<open>
  Claim C9. Assigning a vector to itself, by copy or by move, does nothing: the objects
  in the store and the world are as before, so no element was copied, moved or destroyed
  and no storage was allocated or released.
\<close>

theorem self_assignment_is_noop:
  "Vector_copy_assign T this this S w = (Returned (), S, w) \<and>
   Vector_move_assign T this this S w = (Returned (), S, w)"
  by (simp add: Vector_copy_assign_def Vector_move_assign_def)

text \<open>
  Claim C2. When \<^verbatim>\<open>EmplaceBack\<close> or \<^verbatim>\<open>Emplace\<close> returns, the capacity is \<open>1\<close> if the
  vector was full and empty, twice the old size if it was full and not empty, and
  what it was if the vector was not full.
\<close>

theorem growth_rule:
  "(EmplaceBack T args v w = (Returned p, v', w') \<longrightarrow>
      Capacity v' = (if m_size v = Capacity v
                     then (if m_size v = 0 then 1 else 2 * m_size v) else Capacity v)) \<and>
   (Emplace T pos args1 u w1 = (Returned q, u', w1') \<longrightarrow>
      Capacity u' = (if m_size u = Capacity u
                     then (if m_size u = 0 then 1 else 2 * m_size u) else Capacity u))"
  using EmplaceBack_Capacity_grow [of T args v w p v' w']
    EmplaceBack_Capacity_same [of T args v w p v' w']
    Emplace_Capacity_grow [of T pos args1 u w1 q u' w1']
    Emplace_Capacity_same [of T pos args1 u w1 q u' w1']
  by (cases "m_size v = Capacity v"; cases "m_size u = Capacity u"; simp)

theorem growth_rule_witness:
  "fst (EmplaceBack int_element (emplace_value 3) (vector_of 500 [1, 2] 0) world0) = Returned 102 \<and>
   Capacity (fst (snd (EmplaceBack int_element (emplace_value 3) (vector_of 500 [1, 2] 0) world0))) = 4 \<and>
   fst (Emplace int_element 501 (emplace_value 9) (vector_of 500 [1, 2, 3] 5) world0) = Returned 501 \<and>
   Capacity (fst (snd (Emplace int_element 501 (emplace_value 9) (vector_of 500 [1, 2, 3] 5) world0))) = 8"
proof -
  let ?a = "EmplaceBack int_element (emplace_value 3) (vector_of 500 [1, 2] 0) world0"
  let ?b = "Emplace int_element 501 (emplace_value 9) (vector_of 500 [1, 2, 3] 5) world0"
  have a: "fst ?a = Returned 102" by code_simp
  have b: "fst ?b = Returned 501" by code_simp
  have a': "?a = (Returned 102, fst (snd ?a), snd (snd ?a))"
    using a by (simp add: prod_eq_iff)
  have b': "?b = (Returned 501, fst (snd ?b), snd (snd ?b))"
    using b by (simp add: prod_eq_iff)
  have sz: "m_size (vector_of 500 [1, 2::int] 0) = 2" "Capacity (vector_of 500 [1, 2::int] 0) = 2"
    "m_size (vector_of 500 [1, 2, 3::int] 5) = 3" "Capacity (vector_of 500 [1, 2, 3::int] 5) = 8"
    by (simp_all add: vector_of_def Capacity_def RawMemory_Capacity_def)
  from growth_rule [of int_element "emplace_value 3" "vector_of 500 [1, 2] 0" world0 102
      "fst (snd ?a)" "snd (snd ?a)" 501 "emplace_value 9" "vector_of 500 [1, 2, 3] 5" world0 501
      "fst (snd ?b)" "snd (snd ?b)"] a' b'
  have "Capacity (fst (snd ?a)) = 4" "Capacity (fst (snd ?b)) = 8"
    by (simp_all add: sz)
  with a b show ?thesis by simp
qed

text \<open>
  Claim C1, as stated for every element type, fails. On the full vector \<open>[1, 13]\<close> of a
  type that cannot be copied and whose move constructor throws on \<open>13\<close>, \<^verbatim>\<open>EmplaceBack\<close>
  allocates, builds the new element, relocates by move, and the second move throws: the
  exception leaves \<^verbatim>\<open>EmplaceBack\<close> and the first element is left in its moved-from state.
\<close>

theorem emplace_move_only_counterexample:
  "m_size (vector_of 500 [1, 13::int] 0) = Capacity (vector_of 500 [1, 13::int] 0) \<and>
   fst (EmplaceBack move_only_element (emplace_value 5) (vector_of 500 [1, 13] 0) world0) =
     Raised (ElementExn 13) \<and>
   elements (vector_of 500 [1, 13::int] 0) = [1, 13] \<and>
   elements (fst (snd (EmplaceBack move_only_element (emplace_value 5)
                         (vector_of 500 [1, 13] 0) world0))) = [0, 13]"
  by code_simp

text \<open>
  Claim C1, amended. When the vector is full and the constructor of the new element
  throws (after the new buffer was allocated), \<^verbatim>\<open>EmplaceBack\<close> and \<^verbatim>\<open>Emplace\<close> let that
  exception through and leave the vector, its size, capacity and slots, as it was; all
  that happened is that the new buffer was released. For an element type that is
  copy-constructible, or whose move constructor is \<^verbatim>\<open>noexcept\<close>, the same holds for every
  exception that leaves a growing \<^verbatim>\<open>EmplaceBack\<close> or \<^verbatim>\<open>Emplace\<close>. For every element type,
  an exception that leaves a growing \<^verbatim>\<open>EmplaceBack\<close> or \<^verbatim>\<open>Emplace\<close> on a valid vector
  leaves it valid, with the same size, capacity and buffer.
\<close>

theorem emplace_growth_strong_guarantee:
  "(m_size v = Capacity v \<longrightarrow>
    RawMemory_sized T (if m_size v = 0 then 1 else m_size v * 2) w = (Returned nd, w1) \<longrightarrow>
    args (env w1) = (Raised x, e) \<longrightarrow>
      EmplaceBack T args v w =
        (Raised x, v, RawMemory_dtor T nd \<lparr>env = e, trace = trace w1 @ [Construct (Raised x)]\<rparr>) \<and>
      (Vector_begin v \<le> pos \<and> pos \<le> Vector_end v \<longrightarrow>
         Emplace T pos args v w =
           (Raised x, v, RawMemory_dtor T nd \<lparr>env = e, trace = trace w1 @ [Construct (Raised x)]\<rparr>))) \<and>
   (m_size v = Capacity v \<longrightarrow>
    is_copy_constructible T \<or> is_nothrow_move_constructible T \<longrightarrow>
      (EmplaceBack T args v w = (Raised y, v', w') \<longrightarrow> v' = v) \<and>
      (Emplace T pos args v w = (Raised y, v', w') \<longrightarrow> v' = v)) \<and>
   (m_size v = Capacity v \<longrightarrow> valid v \<longrightarrow>
      (EmplaceBack T args v w = (Raised y, v', w') \<longrightarrow>
         valid v' \<and> Size v' = Size v \<and> Capacity v' = Capacity v \<and>
         Vector_begin v' = Vector_begin v) \<and>
      (Emplace T pos args v w = (Raised y, v', w') \<longrightarrow>
         valid v' \<and> Size v' = Size v \<and> Capacity v' = Capacity v \<and>
         Vector_begin v' = Vector_begin v))"
  using EmplaceBack_constructor_throws [of v T w nd w1 args x e]
    Emplace_constructor_throws [of v pos T w nd w1 args x e]
    EmplaceBack_grow_Raised_unchanged [of T args v w y v' w']
    Emplace_grow_Raised_unchanged [of T pos args v w y v' w']
    EmplaceBack_grow_Raised_basic [of T args v w y v' w']
    Emplace_grow_Raised_basic [of T pos args v w y v' w']
  unfolding Size_def by blast

theorem emplace_growth_strong_guarantee_witness:
  "EmplaceBack int_element emplace_throws (vector_of 500 [1, 2] 0) world0 =
     (Raised (ElementExn 7), vector_of 500 [1, 2] 0,
      \<lparr>env = 1, trace = [OperatorNew 16 (Inr 100), Construct (Raised (ElementExn 7)),
                        OperatorDelete 100]\<rparr>) \<and>
   Emplace int_element 501 emplace_throws (vector_of 500 [1, 2] 0) world0 =
     (Raised (ElementExn 7), vector_of 500 [1, 2] 0,
      \<lparr>env = 1, trace = [OperatorNew 16 (Inr 100), Construct (Raised (ElementExn 7)),
                        OperatorDelete 100]\<rparr>) \<and>
   fst (EmplaceBack throwing_copy_element (emplace_value 5) (vector_of 500 [1, 13] 0) world0) =
     Raised (ElementExn 13) \<and>
   fst (snd (EmplaceBack throwing_copy_element (emplace_value 5) (vector_of 500 [1, 13] 0) world0)) =
     vector_of 500 [1, 13] 0 \<and>
   fst (Emplace throwing_copy_element 501 (emplace_value 5) (vector_of 500 [1, 7, 13] 0) world0) =
     Raised (ElementExn 13) \<and>
   fst (snd (Emplace throwing_copy_element 501 (emplace_value 5) (vector_of 500 [1, 7, 13] 0) world0)) =
     vector_of 500 [1, 7, 13] 0 \<and>
   valid (vector_of 500 [1, 13::int] 0) \<and>
   fst (EmplaceBack move_only_element (emplace_value 5) (vector_of 500 [1, 13] 0) world0) =
     Raised (ElementExn 13) \<and>
   valid (fst (snd (EmplaceBack move_only_element (emplace_value 5)
                      (vector_of 500 [1, 13] 0) world0))) \<and>
   Size (fst (snd (EmplaceBack move_only_element (emplace_value 5)
                     (vector_of 500 [1, 13] 0) world0))) = 2 \<and>
   valid (vector_of 500 [1, 7, 13::int] 0) \<and>
   fst (Emplace move_only_element 501 (emplace_value 5) (vector_of 500 [1, 7, 13] 0) world0) =
     Raised (ElementExn 13) \<and>
   Capacity (fst (snd (Emplace move_only_element 501 (emplace_value 5)
                         (vector_of 500 [1, 7, 13] 0) world0))) = 3"
proof -
  let ?v = "vector_of 500 [1, 2::int] 0"
  let ?nd = "\<lparr>m_buffer = 100, m_capacity = 4, slots = [None, None, None, None :: int option]\<rparr>"
  let ?w1 = "\<lparr>env = 1::nat, trace = [OperatorNew 16 (Inr 100) :: int event]\<rparr>"
  have full: "m_size ?v = Capacity ?v"
    by (simp add: vector_of_def Capacity_def RawMemory_Capacity_def)
  have alloc: "RawMemory_sized int_element (if m_size ?v = 0 then 1 else m_size ?v * 2) world0
                 = (Returned ?nd, ?w1)"
    by code_simp
  have throws: "emplace_throws (env ?w1) = (Raised (ElementExn 7) :: int outcome, 1)"
    by (simp add: emplace_throws_def)
  have range: "Vector_begin ?v \<le> 501 \<and> 501 \<le> Vector_end ?v"
    by (simp add: vector_of_def Vector_begin_def Vector_end_def GetAddress_def)
  have dtor: "RawMemory_dtor int_element ?nd
                \<lparr>env = 1, trace = trace ?w1 @ [Construct (Raised (ElementExn 7))]\<rparr> =
              \<lparr>env = 1, trace = [OperatorNew 16 (Inr 100), Construct (Raised (ElementExn 7)),
                                OperatorDelete 100]\<rparr>"
    by code_simp
  let ?u = "vector_of 500 [1, 13::int] 0"
  let ?a = "EmplaceBack throwing_copy_element (emplace_value 5) ?u world0"
  let ?t = "vector_of 500 [1, 7, 13::int] 0"
  let ?b = "Emplace throwing_copy_element 501 (emplace_value 5) ?t world0"
  let ?c = "EmplaceBack move_only_element (emplace_value 5) ?u world0"
  let ?d = "Emplace move_only_element 501 (emplace_value 5) ?t world0"
  have a: "fst ?a = Raised (ElementExn 13)" by code_simp
  have b: "fst ?b = Raised (ElementExn 13)" by code_simp
  have c: "fst ?c = Raised (ElementExn 13)" by code_simp
  have d: "fst ?d = Raised (ElementExn 13)" by code_simp
  have a': "EmplaceBack throwing_copy_element (emplace_value 5) ?u world0 =
              (Raised (ElementExn 13), fst (snd ?a), snd (snd ?a))"
    using a by (simp add: prod_eq_iff)
  have b': "Emplace throwing_copy_element 501 (emplace_value 5) ?t world0 =
              (Raised (ElementExn 13), fst (snd ?b), snd (snd ?b))"
    using b by (simp add: prod_eq_iff)
  have c': "EmplaceBack move_only_element (emplace_value 5) ?u world0 =
              (Raised (ElementExn 13), fst (snd ?c), snd (snd ?c))"
    using c by (simp add: prod_eq_iff)
  have d': "Emplace move_only_element 501 (emplace_value 5) ?t world0 =
              (Raised (ElementExn 13), fst (snd ?d), snd (snd ?d))"
    using d by (simp add: prod_eq_iff)
  have fullu: "m_size ?u = Capacity ?u" "m_size ?t = Capacity ?t"
    by (simp_all add: vector_of_def Capacity_def RawMemory_Capacity_def)
  have sz: "Size ?u = 2" "Capacity ?t = 3"
    by (simp_all add: vector_of_def Size_def Capacity_def RawMemory_Capacity_def)
  have val: "valid ?u" "valid ?t" by code_simp+
  have cc: "is_copy_constructible throwing_copy_element"
    by (simp add: throwing_copy_element_def)
  from emplace_growth_strong_guarantee [THEN conjunct1, of ?v int_element world0 ?nd ?w1
      emplace_throws "ElementExn 7" 1 501] full alloc throws range dtor
  have 1: "EmplaceBack int_element emplace_throws ?v world0 =
     (Raised (ElementExn 7), ?v,
      \<lparr>env = 1, trace = [OperatorNew 16 (Inr 100), Construct (Raised (ElementExn 7)),
                        OperatorDelete 100]\<rparr>)"
    and 2: "Emplace int_element 501 emplace_throws ?v world0 =
     (Raised (ElementExn 7), ?v,
      \<lparr>env = 1, trace = [OperatorNew 16 (Inr 100), Construct (Raised (ElementExn 7)),
                        OperatorDelete 100]\<rparr>)"
    by simp_all
  from emplace_growth_strong_guarantee [THEN conjunct2, THEN conjunct1,
      of ?u throwing_copy_element "emplace_value 5" world0 "ElementExn 13" "fst (snd ?a)"
      "snd (snd ?a)"] fullu cc a'
  have 3: "fst (snd ?a) = ?u" by blast
  from emplace_growth_strong_guarantee [THEN conjunct2, THEN conjunct1,
      of ?t throwing_copy_element "emplace_value 5" world0 "ElementExn 13"
      "fst (snd ?b)" "snd (snd ?b)" 501] fullu cc b'
  have 4: "fst (snd ?b) = ?t" by blast
  from emplace_growth_strong_guarantee [THEN conjunct2, THEN conjunct2,
      of ?u move_only_element "emplace_value 5" world0 "ElementExn 13" "fst (snd ?c)"
      "snd (snd ?c)"] fullu val c'
  have 5: "valid (fst (snd ?c))" "Size (fst (snd ?c)) = Size ?u" by blast+
  from emplace_growth_strong_guarantee [THEN conjunct2, THEN conjunct2,
      of ?t move_only_element "emplace_value 5" world0 "ElementExn 13"
      "fst (snd ?d)" "snd (snd ?d)" 501] fullu val d'
  have 6: "Capacity (fst (snd ?d)) = Capacity ?t" by blast
  from 1 2 3 4 5 6 a b c d val sz show ?thesis by (simp only:)
qed

text \<open>
  Claim C5. On a vector of three strings with one free slot, \<^verbatim>\<open>Insert\<close> in the middle
  moves the last element into the free slot and then assigns the emptied source over
  it: the last element is lost, and erasing the inserted element does not give the
  sequence back.
\<close>

theorem insert_then_erase_loses_last_element:
  "(case Insert_copy string_element 501 ''x'' (vector_of 500 [''a'', ''b'', ''c''] 1) world0 of
      (r1, v1, w1) \<Rightarrow>
        r1 = Returned 501 \<and> elements v1 = [''a'', ''x'', ''b'', ''''] \<and>
        (case Erase string_element 501 v1 w1 of
           (r2, v2, w2) \<Rightarrow> r2 = Returned 501 \<and> elements v2 = [''a'', ''b'', '''']))"
  by code_simp

text \<open>
  Claim C10. When \<^verbatim>\<open>Erase(pos)\<close> returns, \<open>pos\<close> was in \<open>[begin, end)\<close>, and the iterator
  returned is \<open>begin() + offset\<close> for the offset \<open>pos - begin()\<close> computed on entry; the
  buffer is the same, so this is \<open>pos\<close> itself. The size is one less. The iterator is
  \<open>end()\<close> exactly when the last element was erased; for faithful moves the elements
  are the old ones without the erased one, so otherwise the iterator is at the element
  that followed it.
\<close>

theorem erase_returns_same_offset:
  "Erase T pos v w = (Returned p, v', w') \<longrightarrow>
     Vector_begin v \<le> pos \<and> pos < Vector_end v \<and>
     p = Vector_begin v' + (pos - Vector_begin v) \<and> p = pos \<and>
     Vector_begin v' = Vector_begin v \<and> m_size v' = m_size v - 1 \<and>
     (p = Vector_end v' \<longleftrightarrow> pos - Vector_begin v = m_size v - 1) \<and>
     (faithful T \<longrightarrow>
        elements v' = take (pos - Vector_begin v) (elements v) @
                      drop (Suc (pos - Vector_begin v)) (elements v) \<and>
        (pos - Vector_begin v < m_size v' \<longrightarrow>
           elements v' ! (pos - Vector_begin v) = elements v ! Suc (pos - Vector_begin v)))"
  using Erase_position [of T pos v w p v' w'] Erase_elements [of T pos v w p v' w']
    Erase_next_element [of T pos v w p v' w']
  by blast

theorem erase_returns_same_offset_witness:
  "faithful int_element \<and>
   fst (Erase int_element 501 (vector_of 500 [1, 2, 3] 1) world0) = Returned 501 \<and>
   elements (fst (snd (Erase int_element 501 (vector_of 500 [1, 2, 3] 1) world0))) = [1, 3] \<and>
   Vector_end (fst (snd (Erase int_element 501 (vector_of 500 [1, 2, 3] 1) world0))) = 502"
proof -
  let ?v = "vector_of 500 [1, 2, 3::int] 1"
  let ?r = "Erase int_element 501 ?v world0"
  have f: "faithful int_element"
    by (simp add: faithful_def int_element_def)
  have r: "fst ?r = Returned 501" by code_simp
  then have r': "Erase int_element 501 ?v world0 = (Returned 501, fst (snd ?r), snd (snd ?r))"
    by (simp add: prod_eq_iff)
  have v: "Vector_begin ?v = 500" "elements ?v = [1, 2, 3]"
    by (simp_all add: vector_of_def Vector_begin_def GetAddress_def elements_def)
  from erase_returns_same_offset [of int_element 501 ?v world0 501 "fst (snd ?r)" "snd (snd ?r)"]
    r' f
  have e: "elements (fst (snd ?r)) =
             take (501 - Vector_begin ?v) (elements ?v) @ drop (Suc (501 - Vector_begin ?v)) (elements ?v)"
    and s: "m_size (fst (snd ?r)) = m_size ?v - 1"
    and b: "Vector_begin (fst (snd ?r)) = Vector_begin ?v"
    by blast+
  have "elements (fst (snd ?r)) = [1, 3]"
    unfolding e v by simp
  moreover have "Vector_end (fst (snd ?r)) = 502"
    using s b unfolding v by (simp add: Vector_end_def Vector_begin_def vector_of_def)
  ultimately have "elements (fst (snd ?r)) = [1, 3]" "Vector_end (fst (snd ?r)) = 502" .
  with f r show ?thesis by simp
qed

text \<open>
  Claim C6, as stated, fails twice. On a full vector \<open>[1, 13]\<close> of a type that cannot be
  copied and whose move constructor throws on \<open>13\<close>, \<^verbatim>\<open>Reserve(4)\<close> relocates by move,
  the second move throws, and the first element is left in its moved-from state. And
  on the vector \<open>[1, 2]\<close> of \<^verbatim>\<open>int\<close>, \<^verbatim>\<open>Reserve(n)\<close> with \<open>n = 2^62 + 1\<close> obtains a block of
  \<^verbatim>\<open>n * sizeof(int)\<close> bytes computed in \<^verbatim>\<open>size_t\<close>, which is \<open>4\<close>, and relocates the second
  element to a place outside it.
\<close>

theorem reserve_counterexample:
  "Capacity (vector_of 500 [1, 13::int] 0) < 4 \<and>
   fst (Reserve move_only_element 4 (vector_of 500 [1, 13] 0) world0) = Raised (ElementExn 13) \<and>
   elements (vector_of 500 [1, 13::int] 0) = [1, 13] \<and>
   elements (fst (snd (Reserve move_only_element 4 (vector_of 500 [1, 13] 0) world0))) = [0, 13] \<and>
   Capacity (vector_of 500 [1, 2::int] 0) < 2 ^ 62 + 1 \<and>
   fst (Reserve int_element (2 ^ 62 + 1) (vector_of 500 [1, 2] 0) world0) = Undefined"
proof -
  have a: "Capacity (vector_of 500 [1, 13::int] 0) < 4 \<and>
   fst (Reserve move_only_element 4 (vector_of 500 [1, 13] 0) world0) = Raised (ElementExn 13) \<and>
   elements (vector_of 500 [1, 13::int] 0) = [1, 13] \<and>
   elements (fst (snd (Reserve move_only_element 4 (vector_of 500 [1, 13] 0) world0))) = [0, 13]"
    by code_simp
  have b: "Capacity (vector_of 500 [1, 2::int] 0) < 2 ^ 62 + 1"
    by (simp add: Capacity_def RawMemory_Capacity_def vector_of_def)
  have c: "fst (Reserve int_element (2 ^ 62 + 1) (vector_of 500 [1, 2] 0) world0) = Undefined"
    by (simp add: Reserve_def RawMemory_Capacity_def vector_of_def RawMemory_sized_def
          Allocate_def call_operator_new_def of_sum_def int_element_def world0_def
          block_slots_def size_t_mul_eq relocate_n_def uninitialized_move_n_def
          read_at_def write_at_def call_move_construct_def)
  from a b c show ?thesis by (simp only:)
qed

text \<open>
  Claim C6, amended. \<^verbatim>\<open>Reserve(n)\<close> with \<open>n \<le> capacity\<close> returns at once: the vector
  (its buffer address too) and the world are unchanged, so nothing was allocated. With
  \<open>n > capacity\<close>, on a valid vector: when it returns, the capacity is \<open>n\<close>, the size is
  unchanged, the elements are unchanged if the constructors of the type build what
  their source holds, and the vector is valid if the byte count \<^verbatim>\<open>n * sizeof(T)\<close> is a
  \<^verbatim>\<open>size_t\<close>; when it lets an exception through and the type is copy-constructible or
  its move is \<^verbatim>\<open>noexcept\<close>, the vector is exactly as before; for every type the vector
  is then still valid, with the same size, capacity and buffer.
\<close>

theorem reserve_guarantees:
  "(n \<le> Capacity v \<longrightarrow> Reserve T n v w = (Returned (), v, w)) \<and>
   (Capacity v < n \<longrightarrow> valid v \<longrightarrow>
      (Reserve T n v w = (Returned u, v', w') \<longrightarrow>
         Capacity v' = n \<and> Size v' = Size v \<and>
         (fits_size_t T n \<longrightarrow> valid v') \<and>
         (faithful_construction T \<longrightarrow> elements v' = elements v)) \<and>
      (Reserve T n v w = (Raised x, v', w') \<longrightarrow>
         (is_copy_constructible T \<or> is_nothrow_move_constructible T \<longrightarrow> v' = v) \<and>
         valid v' \<and> Size v' = Size v \<and> Capacity v' = Capacity v \<and>
         Vector_begin v' = Vector_begin v))"
proof -
  have "valid v'"
    if "Reserve T n v w = (Returned u, v', w')" "Capacity v < n" "valid v" "fits_size_t T n"
    using Reserve_grow_size [OF that] by simp
  moreover have "Capacity v' = n \<and> Size v' = Size v"
    if "Reserve T n v w = (Returned u, v', w')" "Capacity v < n"
    using that
  proof (cases rule: Reserve_Returned)
    case (1 nd w1 old1 nd1 w2 old2 w3)
    have "same_block nd nd1"
    proof (cases "0 < m_size v")
      case True
      with 1(2) have "relocate_n T (m_data v) 0 (m_size v) nd 0 w1 = (Returned (), old1, nd1, w2)"
        by simp
      from relocate_n_block [OF this] show ?thesis by simp
    next
      case False
      with 1(2) show ?thesis by (simp add: same_block_def)
    qed
    with RawMemory_sized_Returned [OF 1(1)] 1(4) show ?thesis
      by (simp add: Capacity_def RawMemory_Capacity_def Size_def same_block_def)
  qed
  moreover have "elements v' = elements v"
    if "Reserve T n v w = (Returned u, v', w')" "Capacity v < n" "valid v"
      "faithful_construction T"
    using Reserve_grow_result [OF that] by simp
  moreover have "v' = v"
    if "Reserve T n v w = (Raised x, v', w')"
      "is_copy_constructible T \<or> is_nothrow_move_constructible T"
    using that by (rule Reserve_Raised_unchanged)
  moreover have "valid v' \<and> Size v' = Size v \<and> Capacity v' = Capacity v \<and>
      Vector_begin v' = Vector_begin v"
    if "Reserve T n v w = (Raised x, v', w')" "valid v"
    using Reserve_Raised_basic [OF that] by (simp add: Size_def)
  ultimately show ?thesis
    using Reserve_noop [of n v T w] by blast
qed

theorem reserve_guarantees_witness:
  "Reserve int_element 2 (vector_of 500 [1, 2, 3] 1) world0 =
     (Returned (), vector_of 500 [1, 2, 3] 1, world0) \<and>
   valid (vector_of 500 [1, 2, 3::int] 1) \<and> faithful_construction int_element \<and>
   fits_size_t int_element 8 \<and>
   fst (Reserve int_element 8 (vector_of 500 [1, 2, 3] 1) world0) = Returned () \<and>
   Capacity (fst (snd (Reserve int_element 8 (vector_of 500 [1, 2, 3] 1) world0))) = 8 \<and>
   valid (fst (snd (Reserve int_element 8 (vector_of 500 [1, 2, 3] 1) world0))) \<and>
   elements (fst (snd (Reserve int_element 8 (vector_of 500 [1, 2, 3] 1) world0))) = [1, 2, 3] \<and>
   valid (vector_of 500 [1, 13::int] 0) \<and>
   fst (Reserve throwing_copy_element 4 (vector_of 500 [1, 13] 0) world0) = Raised (ElementExn 13) \<and>
   fst (snd (Reserve throwing_copy_element 4 (vector_of 500 [1, 13] 0) world0)) =
     vector_of 500 [1, 13] 0"
proof -
  let ?v = "vector_of 500 [1, 2, 3::int] 1"
  let ?a = "Reserve int_element 8 ?v world0"
  let ?u = "vector_of 500 [1, 13::int] 0"
  let ?b = "Reserve throwing_copy_element 4 ?u world0"
  have val: "valid ?v" "valid ?u" by code_simp+
  have f: "faithful_construction int_element"
    by (simp add: faithful_construction_def int_element_def)
  have fits: "fits_size_t int_element 8" by (simp add: fits_size_t_def int_element_def)
  have cc: "is_copy_constructible throwing_copy_element"
    by (simp add: throwing_copy_element_def)
  have a: "fst ?a = Returned ()" by code_simp
  then have a': "Reserve int_element 8 ?v world0 = (Returned (), fst (snd ?a), snd (snd ?a))"
    by (simp add: prod_eq_iff)
  have b: "fst ?b = Raised (ElementExn 13)" by code_simp
  then have b': "Reserve throwing_copy_element 4 ?u world0 =
      (Raised (ElementExn 13), fst (snd ?b), snd (snd ?b))"
    by (simp add: prod_eq_iff)
  have el: "elements ?v = [1, 2, 3]" by (simp add: elements_def vector_of_def)
  have lt: "2 \<le> Capacity ?v" "Capacity ?v < 8" "Capacity ?u < 4"
    by (simp_all add: vector_of_def Capacity_def RawMemory_Capacity_def)
  from reserve_guarantees [of 2 ?v int_element world0] lt(1)
  have 1: "Reserve int_element 2 ?v world0 = (Returned (), ?v, world0)" by blast
  from reserve_guarantees [of 8 ?v int_element world0 "()" "fst (snd ?a)" "snd (snd ?a)"]
    lt(2) val(1) f fits a'
  have 2: "Capacity (fst (snd ?a)) = 8" "elements (fst (snd ?a)) = elements ?v"
    "valid (fst (snd ?a))" by blast+
  from reserve_guarantees [of 4 ?u throwing_copy_element world0 _ "fst (snd ?b)"
      "snd (snd ?b)" "ElementExn 13"] lt(3) val(2) cc b'
  have 3: "fst (snd ?b) = ?u" by blast
  from 1 2 3 val f fits a b el show ?thesis by (simp only:)
qed

text \<open>
  Claim C3. In every path that grows the storage (\<^verbatim>\<open>EmplaceBack\<close> and \<^verbatim>\<open>Emplace\<close> on a
  full vector, \<^verbatim>\<open>Reserve\<close> beyond the capacity), whatever the defined outcome: if the
  element type's move constructor is \<^verbatim>\<open>noexcept\<close> or the type has no copy constructor,
  the call makes no copy construction and, when it returns, has made one move
  construction for each element; otherwise it makes no move construction, has made one
  copy construction for each element when it returns, and has left the vector as it was
  when it lets an exception through. When the call returns, on a valid vector of a type
  whose constructors build what their source holds, the buffer of the vector is the
  block the call allocated and the elements are in it, in their order: after
  \<^verbatim>\<open>EmplaceBack\<close> before the new element, after \<^verbatim>\<open>Emplace\<close> before and behind it, after
  \<^verbatim>\<open>Reserve\<close> all there is.
\<close>

theorem relocation_by_move_or_copy:
  "(m_size v = Capacity v \<longrightarrow> EmplaceBack T args v w = (r, v', w') \<longrightarrow> r \<noteq> Undefined \<longrightarrow>
      relocated_by_rule T v w r v' w' \<and>
      (returned r \<longrightarrow> valid v \<longrightarrow> faithful_construction T \<longrightarrow>
         new_block T (if m_size v = 0 then 1 else m_size v * 2) w = Some (Vector_begin v') \<and>
         Size v' = Size v + 1 \<and> take (Size v) (elements v') = elements v)) \<and>
   (m_size v = Capacity v \<longrightarrow> Emplace T pos args v w = (r, v', w') \<longrightarrow> r \<noteq> Undefined \<longrightarrow>
      relocated_by_rule T v w r v' w' \<and>
      (returned r \<longrightarrow> valid v \<longrightarrow> faithful_construction T \<longrightarrow>
         new_block T (if m_size v = 0 then 1 else m_size v * 2) w = Some (Vector_begin v') \<and>
         Size v' = Size v + 1 \<and>
         take (pos - Vector_begin v) (elements v') = take (pos - Vector_begin v) (elements v) \<and>
         drop (pos - Vector_begin v + 1) (elements v') = drop (pos - Vector_begin v) (elements v))) \<and>
   (Capacity v < n \<longrightarrow> Reserve T n v w = (u, v', w') \<longrightarrow> u \<noteq> Undefined \<longrightarrow>
      relocated_by_rule T v w u v' w' \<and>
      (returned u \<longrightarrow> valid v \<longrightarrow> faithful_construction T \<longrightarrow>
         new_block T n w = Some (Vector_begin v') \<and>
         Size v' = Size v \<and> elements v' = elements v))"
proof -
  have 1: "new_block T (if m_size v = 0 then 1 else m_size v * 2) w = Some (Vector_begin v') \<and>
         Size v' = Size v + 1 \<and> take (Size v) (elements v') = elements v"
    if "m_size v = Capacity v" "EmplaceBack T args v w = (r, v', w')" "returned r" "valid v"
      "faithful_construction T"
  proof -
    from that(3) obtain p where "r = Returned p" by (auto simp: returned_iff)
    with that(2) have "EmplaceBack T args v w = (Returned p, v', w')" by simp
    from EmplaceBack_grow_elements [OF this that(1,4,5)] valid_length_elements [OF that(4)]
    show ?thesis by (auto simp: new_block_def Size_def)
  qed
  have 2: "new_block T (if m_size v = 0 then 1 else m_size v * 2) w = Some (Vector_begin v') \<and>
         Size v' = Size v + 1 \<and>
         take (pos - Vector_begin v) (elements v') = take (pos - Vector_begin v) (elements v) \<and>
         drop (pos - Vector_begin v + 1) (elements v') = drop (pos - Vector_begin v) (elements v)"
    if "m_size v = Capacity v" "Emplace T pos args v w = (r, v', w')" "returned r" "valid v"
      "faithful_construction T"
  proof -
    from that(3) obtain p where p: "r = Returned p" by (auto simp: returned_iff)
    with that(2) have e: "Emplace T pos args v w = (Returned p, v', w')" by simp
    then have "Vector_begin v \<le> pos \<and> pos \<le> Vector_end v"
      by (cases rule: Emplace_cases) simp_all
    then have "pos - Vector_begin v \<le> m_size v"
      unfolding Vector_begin_def Vector_end_def by arith
    with valid_length_elements [OF that(4)]
    have le: "pos - Vector_begin v \<le> length (elements v)" by simp
    from Emplace_grow_elements [OF e that(1,4,5)] valid_length_elements [OF that(4)] le
    show ?thesis by (auto simp: new_block_def Size_def)
  qed
  have 3: "new_block T n w = Some (Vector_begin v') \<and> Size v' = Size v \<and> elements v' = elements v"
    if "Capacity v < n" "Reserve T n v w = (u, v', w')" "returned u" "valid v"
      "faithful_construction T"
  proof -
    from that(3) have "u = Returned ()" by (cases u) simp_all
    with that(2) have e: "Reserve T n v w = (Returned (), v', w')" by simp
    from Reserve_grow_result [OF e that(1,4,5)] Reserve_grow_block [OF e that(1)]
    show ?thesis by (auto simp: new_block_def Size_def)
  qed
  from 1 2 3 EmplaceBack_grow_relocated [of T args v w r v' w']
    Emplace_grow_relocated [of T pos args v w r v' w']
    Reserve_grow_relocated [of T n v w u v' w']
  show ?thesis by blast
qed

theorem relocation_by_move_or_copy_witness:
  "valid (vector_of 500 [1, 2::int] 0) \<and> faithful_construction int_element \<and>
   fst (EmplaceBack int_element (emplace_value 3) (vector_of 500 [1, 2] 0) world0) = Returned 102 \<and>
   calls KMoveConstruct
     (trace (snd (snd (EmplaceBack int_element (emplace_value 3) (vector_of 500 [1, 2] 0) world0)))) = 2 \<and>
   calls KCopyConstruct
     (trace (snd (snd (EmplaceBack int_element (emplace_value 3) (vector_of 500 [1, 2] 0) world0)))) = 0 \<and>
   Vector_begin (fst (snd (EmplaceBack int_element (emplace_value 3) (vector_of 500 [1, 2] 0) world0))) =
     100 \<and>
   take 2 (elements (fst (snd (EmplaceBack int_element (emplace_value 3)
                                 (vector_of 500 [1, 2] 0) world0)))) = [1, 2] \<and>
   fst (Emplace throwing_copy_element 501 (emplace_value 5) (vector_of 500 [1, 7, 13] 0) world0) =
     Raised (ElementExn 13) \<and>
   fst (snd (Emplace throwing_copy_element 501 (emplace_value 5) (vector_of 500 [1, 7, 13] 0) world0)) =
     vector_of 500 [1, 7, 13] 0 \<and>
   calls KMoveConstruct
     (trace (snd (snd (Emplace throwing_copy_element 501 (emplace_value 5)
                         (vector_of 500 [1, 7, 13] 0) world0)))) = 0 \<and>
   valid (vector_of 500 [1, 7::int] 0) \<and> faithful_construction throwing_copy_element \<and>
   fst (Reserve throwing_copy_element 4 (vector_of 500 [1, 7] 0) world0) = Returned () \<and>
   calls KCopyConstruct
     (trace (snd (snd (Reserve throwing_copy_element 4 (vector_of 500 [1, 7] 0) world0)))) = 2 \<and>
   calls KMoveConstruct
     (trace (snd (snd (Reserve throwing_copy_element 4 (vector_of 500 [1, 7] 0) world0)))) = 0 \<and>
   Vector_begin (fst (snd (Reserve throwing_copy_element 4 (vector_of 500 [1, 7] 0) world0))) = 100 \<and>
   elements (fst (snd (Reserve throwing_copy_element 4 (vector_of 500 [1, 7] 0) world0))) = [1, 7]"
proof -
  let ?v = "vector_of 500 [1, 2::int] 0"
  let ?a = "EmplaceBack int_element (emplace_value 3) ?v world0"
  let ?t = "vector_of 500 [1, 7, 13::int] 0"
  let ?b = "Emplace throwing_copy_element 501 (emplace_value 5) ?t world0"
  let ?u = "vector_of 500 [1, 7::int] 0"
  let ?c = "Reserve throwing_copy_element 4 ?u world0"
  have a: "fst ?a = Returned 102" by code_simp
  have b: "fst ?b = Raised (ElementExn 13)" by code_simp
  have c: "fst ?c = Returned ()" by code_simp
  have a': "EmplaceBack int_element (emplace_value 3) ?v world0 =
      (Returned 102, fst (snd ?a), snd (snd ?a))"
    using a by (simp add: prod_eq_iff)
  have b': "Emplace throwing_copy_element 501 (emplace_value 5) ?t world0 =
      (Raised (ElementExn 13), fst (snd ?b), snd (snd ?b))"
    using b by (simp add: prod_eq_iff)
  have c': "Reserve throwing_copy_element 4 ?u world0 = (Returned (), fst (snd ?c), snd (snd ?c))"
    using c by (simp add: prod_eq_iff)
  have full: "m_size ?v = Capacity ?v" "m_size ?t = Capacity ?t" "Capacity ?u < 4"
    by (simp_all add: vector_of_def Capacity_def RawMemory_Capacity_def)
  have ne: "Returned (102::nat) \<noteq> Undefined" "Raised (ElementExn 13) \<noteq> (Undefined :: nat outcome)"
    "Returned () \<noteq> Undefined"
    by simp_all
  have ret: "returned (Returned (102::nat))" "returned (Returned ())" by simp_all
  have val: "valid ?v" "valid ?u" by code_simp+
  have f: "faithful_construction int_element" "faithful_construction throwing_copy_element"
    by (auto simp: faithful_construction_def int_element_def throwing_copy_element_def
             split: if_splits)
  have flags: "is_nothrow_move_constructible int_element"
    "\<not> (is_nothrow_move_constructible throwing_copy_element \<or>
        \<not> is_copy_constructible throwing_copy_element)"
    by (simp_all add: int_element_def throwing_copy_element_def)
  have zero: "calls k (trace (world0 :: (int, nat) world)) = 0" for k
    by (simp add: world0_def calls_def)
  have sz: "m_size ?v = 2" "m_size ?u = 2" "Size ?v = 2"
    by (simp_all add: vector_of_def Size_def)
  have el: "elements ?v = [1, 2]" "elements ?u = [1, 7]"
    by (simp_all add: elements_def vector_of_def)
  have nb: "new_block int_element (if m_size ?v = 0 then 1 else m_size ?v * 2) world0 = Some 100"
    "new_block throwing_copy_element 4 (world0 :: (int, nat) world) = Some 100"
    by code_simp+
  from relocation_by_move_or_copy [of ?v int_element "emplace_value 3" world0 "Returned 102"
      "fst (snd ?a)" "snd (snd ?a)"] full(1) a' ne(1) ret(1) val(1) f(1)
  have r1: "relocated_by_rule int_element ?v world0 (Returned (102::nat)) (fst (snd ?a)) (snd (snd ?a))"
    and e1: "new_block int_element (if m_size ?v = 0 then 1 else m_size ?v * 2) world0 =
               Some (Vector_begin (fst (snd ?a)))"
      "take (Size ?v) (elements (fst (snd ?a))) = elements ?v"
    by blast+
  from r1 flags(1) have 1: "calls KMoveConstruct (trace (snd (snd ?a))) = 2"
    "calls KCopyConstruct (trace (snd (snd ?a))) = 0"
    unfolding relocated_by_rule_def by (simp_all add: zero sz)
  from e1 nb(1) have p1: "Vector_begin (fst (snd ?a)) = 100"
    "take 2 (elements (fst (snd ?a))) = [1, 2]"
    by (simp_all only: sz el option.inject)
  from relocation_by_move_or_copy [of ?t throwing_copy_element "emplace_value 5" world0
      "Raised (ElementExn 13)" "fst (snd ?b)" "snd (snd ?b)" 501] full(2) b' ne(2)
  have "relocated_by_rule throwing_copy_element ?t world0 (Raised (ElementExn 13) :: nat outcome)
          (fst (snd ?b)) (snd (snd ?b))"
    by blast
  with flags(2) have 2: "fst (snd ?b) = ?t" "calls KMoveConstruct (trace (snd (snd ?b))) = 0"
    unfolding relocated_by_rule_def by (simp_all add: zero)
  from relocation_by_move_or_copy [of ?u throwing_copy_element _ world0 _ "fst (snd ?c)"
      "snd (snd ?c)" _ 4 "Returned ()"] full(3) c' ne(3) ret(2) val(2) f(2)
  have r3: "relocated_by_rule throwing_copy_element ?u world0 (Returned ()) (fst (snd ?c)) (snd (snd ?c))"
    and e3: "new_block throwing_copy_element 4 world0 = Some (Vector_begin (fst (snd ?c)))"
      "elements (fst (snd ?c)) = elements ?u"
    by blast+
  from r3 flags(2) have 3: "calls KCopyConstruct (trace (snd (snd ?c))) = 2"
    "calls KMoveConstruct (trace (snd (snd ?c))) = 0"
    unfolding relocated_by_rule_def by (simp_all add: zero sz)
  from e3 nb(2) have p3: "Vector_begin (fst (snd ?c)) = 100" "elements (fst (snd ?c)) = [1, 7]"
    by (simp_all only: el option.inject)
  from a b c 1 p1 2 3 p3 val f show ?thesis by (simp only:)
qed

text \<open>
  Claim C7, as stated for all \<open>n\<close>, fails. \<^verbatim>\<open>Vector<int>(n)\<close> with \<open>n = 2^62 + 1\<close> asks
  \<^verbatim>\<open>operator new\<close> for \<^verbatim>\<open>n * sizeof(int)\<close> bytes computed in \<^verbatim>\<open>size_t\<close>, which is \<open>4\<close>: the
  block has room for one \<^verbatim>\<open>int\<close>, and the second default construction is outside it.
\<close>

theorem sized_constructor_overflow_counterexample:
  "size_t_mul (2 ^ 62 + 1) (size_of int_element) = 4 \<and>
   Vector_sized int_element (2 ^ 62 + 1) world0 =
     (Undefined,
      \<lparr>env = 1, trace = [OperatorNew 4 (Inr 100), ValueConstruct (Inr 0), ValueConstruct (Inr 0)]\<rparr>)"
proof -
  have n: "(2 ^ 62 + 1 :: nat) = Suc (Suc (2 ^ 62 - 1))" by simp
  have bytes: "size_t_mul (2 ^ 62 + 1) (size_of int_element) = 4"
    by (simp add: size_t_mul_eq int_element_def)
  have alloc: "RawMemory_sized int_element (2 ^ 62 + 1) world0 =
      (Returned \<lparr>m_buffer = 100, m_capacity = 2 ^ 62 + 1, slots = [None]\<rparr>,
       \<lparr>env = 1, trace = [OperatorNew 4 (Inr 100)]\<rparr>)"
    by (simp add: RawMemory_sized_def Allocate_def call_operator_new_def of_sum_def
          int_element_def world0_def block_slots_def size_t_mul_eq)
  have loop: "uninitialized_value_construct_loop int_element 0 0 (2 ^ 62 + 1)
       \<lparr>m_buffer = 100, m_capacity = 2 ^ 62 + 1, slots = [None]\<rparr>
       \<lparr>env = 1, trace = [OperatorNew 4 (Inr 100)]\<rparr> =
     (Undefined, \<lparr>m_buffer = 100, m_capacity = 2 ^ 62 + 1, slots = [Some 0]\<rparr>,
      \<lparr>env = 1, trace = [OperatorNew 4 (Inr 100), ValueConstruct (Inr 0), ValueConstruct (Inr 0)]\<rparr>)"
    unfolding n
    by (subst uninitialized_value_construct_loop_overrun [where y = 0 and z = 0 and ?e1.0 = 1 and ?e2.0 = 1])
       (simp_all add: int_element_def)
  have pos: "(0 < (2 ^ 62 + 1 :: nat)) = True" by simp
  have "Vector_sized int_element (2 ^ 62 + 1) world0 =
     (Undefined,
      \<lparr>env = 1, trace = [OperatorNew 4 (Inr 100), ValueConstruct (Inr 0), ValueConstruct (Inr 0)]\<rparr>)"
    by (simp only: Vector_sized_def alloc uninitialized_value_construct_n_def loop pos
          prod.case outcome.case if_True)
  with bytes show ?thesis by (simp only:)
qed

text \<open>
  Claim C7, amended: for every \<open>n\<close> whose byte count \<^verbatim>\<open>n * sizeof(T)\<close> is a \<^verbatim>\<open>size_t\<close>,
  \<^verbatim>\<open>Vector(n)\<close> returns or lets an exception through. When \<^verbatim>\<open>Vector(n)\<close> returns, the
  vector has size \<open>n\<close>, capacity \<open>n\<close> and is valid, and its elements are, in order, the
  objects that the \<open>n\<close> default constructions of this call built: each is a value the
  default constructor returns. When it lets an exception through, no vector exists, and
  the call destroyed exactly the objects it had built and released exactly the buffers
  it had allocated.
\<close>

theorem sized_constructor:
  "(fits_size_t T n \<longrightarrow> fst (Vector_sized T n w) \<noteq> Undefined) \<and>
   (Vector_sized T n w = (Returned v, w') \<longrightarrow>
      Size v = n \<and> n \<le> Capacity v \<and> Capacity v = n \<and> valid v \<and> length (elements v) = n \<and>
      (\<forall>y\<in>set (elements v). \<exists>e e'. value_construct T e = (Inr y, e')) \<and>
      value_constructed (trace w') = value_constructed (trace w) @ elements v \<and>
      destroyed (trace w') = destroyed (trace w)) \<and>
   (Vector_sized T n w = (Raised x, w') \<longrightarrow>
      (\<exists>ys ps. value_constructed (trace w') = value_constructed (trace w) @ ys \<and>
               destroyed (trace w') = destroyed (trace w) @ ys \<and>
               allocated (trace w') = allocated (trace w) @ ps \<and>
               released (trace w') = released (trace w) @ ps))"
  using Vector_sized_Returned [of T n w v w'] Vector_sized_Raised [of T n w x w']
    Vector_sized_defined [of T n w]
  by (simp add: Size_def)

theorem sized_constructor_witness:
  "fits_size_t int_element 3 \<and>
   fst (Vector_sized int_element 3 world0) \<noteq> Undefined \<and>
   fst (Vector_sized int_element 3 world0) = Returned (vector_of 100 [0, 0, 0] 0) \<and>
   Size (vector_of 100 [0, 0, 0::int] 0) = 3 \<and> elements (vector_of 100 [0, 0, 0::int] 0) = [0, 0, 0] \<and>
   value_constructed (trace (snd (Vector_sized int_element 3 world0))) = [0, 0, 0] \<and>
   fst (Vector_sized third_fails_element 5 world0) = Raised (ElementExn 3) \<and>
   value_constructed (trace (snd (Vector_sized third_fails_element 5 world0))) = [0, 1] \<and>
   destroyed (trace (snd (Vector_sized third_fails_element 5 world0))) = [0, 1] \<and>
   allocated (trace (snd (Vector_sized third_fails_element 5 world0))) = [100] \<and>
   released (trace (snd (Vector_sized third_fails_element 5 world0))) = [100]"
proof -
  let ?a = "Vector_sized int_element 3 world0"
  let ?b = "Vector_sized third_fails_element 5 world0"
  let ?v = "vector_of 100 [0, 0, 0::int] 0"
  have fits: "fits_size_t int_element 3" by (simp add: fits_size_t_def int_element_def)
  from sized_constructor [of int_element 3 world0] fits
  have 0: "fst (Vector_sized int_element 3 world0) \<noteq> Undefined" by blast
  have a: "fst ?a = Returned ?v" by code_simp
  then have a': "Vector_sized int_element 3 world0 = (Returned ?v, snd ?a)"
    by (simp add: prod_eq_iff)
  have b: "fst ?b = Raised (ElementExn 3)" by code_simp
  then have b': "Vector_sized third_fails_element 5 world0 = (Raised (ElementExn 3), snd ?b)"
    by (simp add: prod_eq_iff)
  have el: "elements ?v = [0, 0, 0]" by (simp add: elements_def vector_of_def)
  have nil: "value_constructed (trace (world0 :: (int, nat) world)) = []"
    by (simp add: world0_def value_constructed_def)
  from sized_constructor [of int_element 3 world0 ?v "snd ?a"] a'
  have 1: "Size ?v = 3" "value_constructed (trace (snd ?a)) =
      value_constructed (trace (world0 :: (int, nat) world)) @ elements ?v"
    by blast+
  from sized_constructor [THEN conjunct2, THEN conjunct2, rule_format, OF b']
  obtain ys ps where
    2: "value_constructed (trace (snd ?b)) =
          value_constructed (trace (world0 :: (nat, nat) world)) @ ys"
       "destroyed (trace (snd ?b)) = destroyed (trace (world0 :: (nat, nat) world)) @ ys"
       "allocated (trace (snd ?b)) = allocated (trace (world0 :: (nat, nat) world)) @ ps"
       "released (trace (snd ?b)) = released (trace (world0 :: (nat, nat) world)) @ ps"
    by blast
  have vc: "value_constructed (trace (snd ?b)) = [0, 1]" by code_simp
  have al: "allocated (trace (snd ?b)) = [100]" by code_simp
  have nil2: "value_constructed (trace (world0 :: (nat, nat) world)) = []"
    "destroyed (trace (world0 :: (nat, nat) world)) = []"
    "allocated (trace (world0 :: (nat, nat) world)) = []"
    "released (trace (world0 :: (nat, nat) world)) = []"
    by (simp_all add: world0_def value_constructed_def destroyed_def allocated_def released_def)
  from 2 vc al have "destroyed (trace (snd ?b)) = [0, 1]" "released (trace (snd ?b)) = [100]"
    unfolding nil2 by simp_all
  with a b el 1 vc al fits 0 show ?thesis unfolding nil el by simp
qed

end
